theory Spec2Isabelle
  imports Main "HOL-Library.DAList" "HOL-Library.Multiset" "HOL-Library.Word"
begin

section \<open>Data model\<close>

text \<open>
  The node record of the cluster API, restricted to the fields the program reads or
  writes: \<open>node.Status.Addresses\<close> and \<open>node.Spec.Taints\<close>. The address type
  \<open>v1.NodeAddressType\<close> is a Go string type, so it is a \<open>string\<close> here, with the three
  constants the program and its documentation name.
\<close>

type_synonym NodeAddressType = string

definition NodeHostName :: NodeAddressType where
  "NodeHostName = ''Hostname''"

definition NodeInternalIP :: NodeAddressType where
  "NodeInternalIP = ''InternalIP''"

definition NodeExternalIP :: NodeAddressType where
  "NodeExternalIP = ''ExternalIP''"

record NodeAddress =
  Type :: NodeAddressType
  Address :: string

record Taint =
  Key :: string
  Value :: string
  Effect :: string

record NodeSpec =
  Taints :: "Taint list"

record NodeStatus =
  Addresses :: "NodeAddress list"

record Node =
  Spec :: NodeSpec
  Status :: NodeStatus

text \<open>\<open>TaintKey\<close> (line 33).\<close>

definition TaintKey :: string where
  "TaintKey = ''node.cloudprovider.kubernetes.io/uninitialized''"

section \<open>The cluster API as explicit state\<close>

text \<open>
  The API server is the state: the stored nodes by name, the log of the requests it has
  received, and a schedule of transport faults (one flag per request still to come;
  \<open>True\<close> makes that request fail without effect, an exhausted schedule means no more
  faults). A theorem about every state is therefore a theorem about every fault schedule.
  Requests are sequential; writers other than this program are not part of the model.
\<close>

datatype json_patch =
    ReplaceStatusAddresses "NodeAddress list"
  | ReplaceSpecTaints "Taint list"

datatype api_call =
    Get string
  | Patch string json_patch

datatype api_error = NotFound | Transient

record Cluster =
  nodes :: "string \<rightharpoonup> Node"
  faults :: "bool list"
  calls :: "api_call list"

definition request :: "api_call \<Rightarrow> Cluster \<Rightarrow> bool \<times> Cluster" where
  "request c w =
     ((case faults w of [] \<Rightarrow> False | f # _ \<Rightarrow> f),
      w\<lparr>faults := tl (faults w), calls := calls w @ [c]\<rparr>)"

definition apply_patch :: "json_patch \<Rightarrow> Node \<Rightarrow> Node" where
  "apply_patch p n =
     (case p of
        ReplaceStatusAddresses addresses \<Rightarrow> n\<lparr>Status := (Status n)\<lparr>Addresses := addresses\<rparr>\<rparr>
      | ReplaceSpecTaints taints \<Rightarrow> n\<lparr>Spec := (Spec n)\<lparr>Taints := taints\<rparr>\<rparr>)"

text \<open>\<open>client.CoreV1().Nodes().Get(ctx, name, ...)\<close>\<close>

definition Nodes_Get :: "string \<Rightarrow> Cluster \<Rightarrow> (api_error + Node) \<times> Cluster" where
  "Nodes_Get name w =
     (case request (Get name) w of
        (True, w') \<Rightarrow> (Inl Transient, w')
      | (False, w') \<Rightarrow>
          (case nodes w' name of
             None \<Rightarrow> (Inl NotFound, w')
           | Some n \<Rightarrow> (Inr n, w')))"

text \<open>\<open>client.CoreV1().Nodes().Patch(ctx, name, types.JSONPatchType, patchBytes, ...)\<close>\<close>

definition Nodes_Patch :: "string \<Rightarrow> json_patch \<Rightarrow> Cluster \<Rightarrow> (api_error + Node) \<times> Cluster" where
  "Nodes_Patch name p w =
     (case request (Patch name p) w of
        (True, w') \<Rightarrow> (Inl Transient, w')
      | (False, w') \<Rightarrow>
          (case nodes w' name of
             None \<Rightarrow> (Inl NotFound, w')
           | Some n \<Rightarrow>
               (Inr (apply_patch p n), w'\<lparr>nodes := (nodes w')(name \<mapsto> apply_patch p n)\<rparr>)))"

section \<open>pkg/node: the updater\<close>

record Updater =
  nodeName :: string

datatype updater_error =
    FailedToGetNode api_error
  | FailedToPatchNodeAddresses api_error
  | FailedToRemoveTaint api_error

text \<open>
  \<open>UpdateAddresses\<close> (lines 51-85). \<open>json.Marshal\<close> of a patch made of
  strings cannot fail, so its error branch has no counterpart.
\<close>

definition UpdateAddresses ::
  "Updater \<Rightarrow> NodeAddress list \<Rightarrow> Cluster \<Rightarrow> (updater_error + unit) \<times> Cluster" where
  "UpdateAddresses u addresses w =
     (case Nodes_Patch (nodeName u) (ReplaceStatusAddresses addresses) w of
        (Inl err, w') \<Rightarrow> (Inl (FailedToPatchNodeAddresses err), w')
      | (Inr _, w') \<Rightarrow> (Inr (), w'))"

text \<open>
  The search loop of \<open>RemoveTaint\<close> (lines 98-104): \<open>taintIndex\<close> starts at \<open>-1\<close> and the
  loop breaks at the first taint whose key is \<open>TaintKey\<close>.
\<close>

fun taintIndex_from :: "nat \<Rightarrow> Taint list \<Rightarrow> int" where
  "taintIndex_from i [] = - 1"
| "taintIndex_from i (taint # rest) =
     (if Key taint = TaintKey then int i else taintIndex_from (Suc i) rest)"

definition taintIndex_of :: "Taint list \<Rightarrow> int" where
  "taintIndex_of taints = taintIndex_from 0 taints"

text \<open>
  \<open>RemoveTaint\<close> (lines 88-144). \<open>append(s[:i], s[i+1:]...)\<close> is
  \<open>take i s @ drop (i + 1) s\<close>.
\<close>

definition RemoveTaint :: "Updater \<Rightarrow> Cluster \<Rightarrow> (updater_error + unit) \<times> Cluster" where
  "RemoveTaint u w =
     (case Nodes_Get (nodeName u) w of
        (Inl err, w1) \<Rightarrow> (Inl (FailedToGetNode err), w1)
      | (Inr node, w1) \<Rightarrow>
          (let taintIndex = taintIndex_of (Taints (Spec node)) in
           if taintIndex = - 1 then (Inr (), w1)
           else
             (let newTaints = take (nat taintIndex) (Taints (Spec node))
                              @ drop (nat taintIndex + 1) (Taints (Spec node)) in
              case Nodes_Patch (nodeName u) (ReplaceSpecTaints newTaints) w1 of
                (Inl err, w2) \<Rightarrow> (Inl (FailedToRemoveTaint err), w2)
              | (Inr _, w2) \<Rightarrow> (Inr (), w2))))"

text \<open>\<open>GetNode\<close> (lines 147-149).\<close>

definition GetNode :: "Updater \<Rightarrow> Cluster \<Rightarrow> (api_error + Node) \<times> Cluster" where
  "GetNode u w = Nodes_Get (nodeName u) w"

section \<open>pkg/detector: route resolution\<close>

text \<open>
  \<open>net.ParseIP\<close>, \<open>netlink.RouteGet\<close> and \<open>net.IP.String\<close> belong to libraries outside the
  repository; the host is a record of the three. An IP is Go's \<open>net.IP\<close>, a byte slice;
  a \<open>nil\<close> one is \<open>None\<close>. Of \<open>netlink.Route\<close> only \<open>Src\<close> is read.
\<close>

type_synonym IP = "8 word list"

record Route =
  Src :: "IP option"

datatype errno = Errno nat

record Host =
  ParseIP :: "string \<Rightarrow> IP option"
  RouteGet :: "IP \<Rightarrow> errno + Route list"
  IP_String :: "IP \<Rightarrow> string"

datatype detect_error =
    TargetIPEmpty
  | InvalidTargetIP string
  | FailedToGetRoute string errno
  | NoRouteFound string
  | RouteHasNoSourceIP string

text \<open>\<open>DetectIP\<close> (lines 178-214).\<close>

definition DetectIP :: "Host \<Rightarrow> string \<Rightarrow> detect_error + string" where
  "DetectIP h targetIP =
     (if targetIP = [] then Inl TargetIPEmpty
      else
        (case ParseIP h targetIP of
           None \<Rightarrow> Inl (InvalidTargetIP targetIP)
         | Some dstIP \<Rightarrow>
             (case RouteGet h dstIP of
                Inl err \<Rightarrow> Inl (FailedToGetRoute targetIP err)
              | Inr routes \<Rightarrow>
                  (if length routes = 0 then Inl (NoRouteFound targetIP)
                   else
                     (let route = routes ! 0 in
                      case Src route of
                        None \<Rightarrow> Inl (RouteHasNoSourceIP targetIP)
                      | Some src \<Rightarrow> Inr (IP_String h src))))))"

section \<open>cmd/local-ccm: the reconciler\<close>

text \<open>
  A Go \<open>map[K]string\<close> is an association list with distinct keys. Reading a missing key
  gives the zero value, the empty string; the two-result form \<open>v, ok := m[k]\<close> is
  \<open>DAList.lookup\<close>.
\<close>

type_synonym 'k gomap = "('k, string) alist"

definition index :: "'k gomap \<Rightarrow> 'k \<Rightarrow> string" where
  "index m k = (case DAList.lookup m k of None \<Rightarrow> [] | Some v \<Rightarrow> v)"

text \<open>
  \<open>for k, v := range m\<close> visits every entry once, in an order the runtime chooses. The
  order is a parameter: a list of numbers, each selecting (modulo the number of entries
  left) the next entry to visit. Every order of visiting is selected by some such list
  (lemma \<open>visit_complete\<close> below).
\<close>

fun visit :: "nat list \<Rightarrow> 'a list \<Rightarrow> 'a list" where
  "visit _ [] = []"
| "visit [] xs = xs"
| "visit (i # ord) xs =
     (let j = i mod length xs in xs ! j # visit ord (take j xs @ drop (Suc j) xs))"

definition range_order :: "nat list \<Rightarrow> 'k gomap \<Rightarrow> ('k \<times> string) list" where
  "range_order ord m = visit ord (DAList.impl_of m)"

text \<open>The flags that \<open>reconcile\<close> reads (lines 615-623).\<close>

record Config =
  internalIPTarget :: string
  externalIPTarget :: string
  removeTaint :: bool

datatype reconcile_error =
    FailedGetNode api_error
  | FailedDetectInternalIP detect_error
  | FailedDetectExternalIP detect_error
  | FailedUpdateAddresses updater_error
  | FailedRemoveTaint updater_error

text \<open>Lines 687-691: the map seeded from the fetched addresses, in list order.\<close>

definition seedAddressMap :: "NodeAddress list \<Rightarrow> NodeAddressType gomap" where
  "seedAddressMap addrs =
     fold (\<lambda>addr m. DAList.update (Type addr) (Address addr) m) addrs DAList.empty"

text \<open>Lines 693-702: the internal IP, detected only when a target is configured.\<close>

definition detectInternal ::
  "Config \<Rightarrow> Host \<Rightarrow> NodeAddressType gomap \<Rightarrow> detect_error + NodeAddressType gomap" where
  "detectInternal cfg h addressMap =
     (if internalIPTarget cfg \<noteq> [] then
        (case DetectIP h (internalIPTarget cfg) of
           Inl err \<Rightarrow> Inl err
         | Inr internalIP \<Rightarrow> Inr (DAList.update NodeInternalIP internalIP addressMap))
      else Inr addressMap)"

text \<open>Lines 713-719: the external IP is dropped when it equals the internal one.\<close>

definition applyExternalIP :: "string \<Rightarrow> NodeAddressType gomap \<Rightarrow> NodeAddressType gomap" where
  "applyExternalIP detectedExternalIP addressMap =
     (case DAList.lookup addressMap NodeInternalIP of
        Some internalIP \<Rightarrow>
          (if internalIP = detectedExternalIP then DAList.delete NodeExternalIP addressMap
           else DAList.update NodeExternalIP detectedExternalIP addressMap)
      | None \<Rightarrow> DAList.update NodeExternalIP detectedExternalIP addressMap)"

text \<open>Lines 721-728: the map converted back to a slice, in the order of the range.\<close>

definition mapToSlice :: "nat list \<Rightarrow> NodeAddressType gomap \<Rightarrow> NodeAddress list" where
  "mapToSlice ord addressMap =
     map (\<lambda>(addrType, addrValue). \<lparr>Type = addrType, Address = addrValue\<rparr>)
       (range_order ord addressMap)"

text \<open>
  \<open>addressesEqual\<close> (lines 775-799). The final loop returns \<open>false\<close> at the first entry of
  \<open>aMap\<close> that \<open>bMap\<close> does not repeat and has no other effect, so its result does not
  depend on the order of the range.
\<close>

definition stringMap :: "NodeAddress list \<Rightarrow> string gomap" where
  "stringMap addrs =
     fold (\<lambda>addr m. DAList.update (Type addr) (Address addr) m) addrs DAList.empty"

definition addressesEqual :: "NodeAddress list \<Rightarrow> NodeAddress list \<Rightarrow> bool" where
  "addressesEqual a b =
     (if length a \<noteq> length b then False
      else
        (let aMap = stringMap a; bMap = stringMap b in
         list_all (\<lambda>(k, v). index bMap k = v) (DAList.impl_of aMap)))"

text \<open>
  \<open>reconcile\<close> (lines 678-748). \<open>ord\<close> is the order in which the runtime ranges over
  \<open>addressMap\<close> at lines 723-728.
\<close>

definition reconcile ::
  "Config \<Rightarrow> Host \<Rightarrow> nat list \<Rightarrow> Updater \<Rightarrow> Cluster \<Rightarrow> (reconcile_error + unit) \<times> Cluster" where
  "reconcile cfg h ord nodeUpdater w =
     (case GetNode nodeUpdater w of
        (Inl err, w1) \<Rightarrow> (Inl (FailedGetNode err), w1)
      | (Inr currentNode, w1) \<Rightarrow>
          (case detectInternal cfg h (seedAddressMap (Addresses (Status currentNode))) of
             Inl err \<Rightarrow> (Inl (FailedDetectInternalIP err), w1)
           | Inr addressMap \<Rightarrow>
               (case DetectIP h (externalIPTarget cfg) of
                  Inl err \<Rightarrow> (Inl (FailedDetectExternalIP err), w1)
                | Inr detectedExternalIP \<Rightarrow>
                    (let addresses = mapToSlice ord (applyExternalIP detectedExternalIP addressMap) in
                     case (if addressesEqual (Addresses (Status currentNode)) addresses
                           then (Inr (), w1)
                           else UpdateAddresses nodeUpdater addresses w1) of
                       (Inl err, w2) \<Rightarrow> (Inl (FailedUpdateAddresses err), w2)
                     | (Inr _, w2) \<Rightarrow>
                         (if removeTaint cfg then
                            (case RemoveTaint nodeUpdater w2 of
                               (Inl err, w3) \<Rightarrow> (Inl (FailedRemoveTaint err), w3)
                             | (Inr _, w3) \<Rightarrow> (Inr (), w3))
                          else (Inr (), w2))))))"

text \<open>The requests a run has added to the log, and the address writes among them.\<close>

definition issued :: "Cluster \<Rightarrow> Cluster \<Rightarrow> api_call list" where
  "issued w w' = drop (length (calls w)) (calls w')"

fun addressWrite :: "api_call \<Rightarrow> bool" where
  "addressWrite (Patch _ (ReplaceStatusAddresses _)) = True"
| "addressWrite _ = False"

fun isPatch :: "api_call \<Rightarrow> bool" where
  "isPatch (Patch _ _) = True"
| "isPatch _ = False"

text \<open>What the cluster stores for a node, field by field.\<close>

definition addressesOf :: "Cluster \<Rightarrow> string \<Rightarrow> NodeAddress list option" where
  "addressesOf w name = map_option (\<lambda>n. Addresses (Status n)) (nodes w name)"

definition taintsOf :: "Cluster \<Rightarrow> string \<Rightarrow> Taint list option" where
  "taintsOf w name = map_option (\<lambda>n. Taints (Spec n)) (nodes w name)"

section \<open>Concrete hosts, configurations and nodes\<close>

text \<open>
  A host whose route to \<open>8.8.8.8\<close> leaves from \<open>203.0.113.10\<close> and whose route to
  \<open>10.0.0.1\<close> leaves from \<open>10.0.0.5\<close>; every other destination is unreachable
  (errno 101).
\<close>

definition host_ex :: Host where
  "host_ex =
     \<lparr>ParseIP = (\<lambda>s. if s = ''8.8.8.8'' then Some [8, 8, 8, 8]
                     else if s = ''10.0.0.1'' then Some [10, 0, 0, 1]
                     else if s = ''192.0.2.1'' then Some [192, 0, 2, 1]
                     else None),
      RouteGet = (\<lambda>ip. if ip = [8, 8, 8, 8] then Inr [\<lparr>Src = Some [203, 0, 113, 10]\<rparr>]
                      else if ip = [10, 0, 0, 1] then Inr [\<lparr>Src = Some [10, 0, 0, 5]\<rparr>]
                      else Inl (Errno 101)),
      IP_String = (\<lambda>ip. if ip = [203, 0, 113, 10] then ''203.0.113.10''
                       else if ip = [10, 0, 0, 5] then ''10.0.0.5''
                       else [])\<rparr>"

definition cfg_external_only :: Config where
  "cfg_external_only =
     \<lparr>internalIPTarget = [], externalIPTarget = ''8.8.8.8'', removeTaint = True\<rparr>"

definition cfg_same_target :: Config where
  "cfg_same_target =
     \<lparr>internalIPTarget = ''10.0.0.1'', externalIPTarget = ''10.0.0.1'', removeTaint = True\<rparr>"

definition cfg_unroutable :: Config where
  "cfg_unroutable =
     \<lparr>internalIPTarget = [], externalIPTarget = ''192.0.2.1'', removeTaint = True\<rparr>"

definition updater_ex :: Updater where
  "updater_ex = \<lparr>nodeName = ''node1''\<rparr>"

definition node_of :: "NodeAddress list \<Rightarrow> Taint list \<Rightarrow> Node" where
  "node_of addrs taints = \<lparr>Spec = \<lparr>Taints = taints\<rparr>, Status = \<lparr>Addresses = addrs\<rparr>\<rparr>"

definition cluster_of :: "NodeAddress list \<Rightarrow> Taint list \<Rightarrow> Cluster" where
  "cluster_of addrs taints =
     \<lparr>nodes = [''node1'' \<mapsto> node_of addrs taints], faults = [], calls = []\<rparr>"

definition uninitialized :: Taint where
  "uninitialized = \<lparr>Key = TaintKey, Value = [], Effect = ''NoSchedule''\<rparr>"

definition uninitialized_noexec :: Taint where
  "uninitialized_noexec = \<lparr>Key = TaintKey, Value = [], Effect = ''NoExecute''\<rparr>"

definition dedicated :: Taint where
  "dedicated = \<lparr>Key = ''dedicated'', Value = ''infra'', Effect = ''NoSchedule''\<rparr>"

definition kubelet_addresses :: "NodeAddress list" where
  "kubelet_addresses =
     [\<lparr>Type = ''Hostname'', Address = ''node1''\<rparr>,
      \<lparr>Type = ''InternalIP'', Address = ''192.168.1.1''\<rparr>]"

definition dual_stack_addresses :: "NodeAddress list" where
  "dual_stack_addresses =
     [\<lparr>Type = ''InternalIP'', Address = ''10.0.0.1''\<rparr>,
      \<lparr>Type = ''InternalIP'', Address = ''fd00::1''\<rparr>]"

definition dual_stack_desired :: "NodeAddress list" where
  "dual_stack_desired =
     [\<lparr>Type = ''InternalIP'', Address = ''fd00::1''\<rparr>,
      \<lparr>Type = ''ExternalIP'', Address = ''203.0.113.10''\<rparr>]"

definition two_hostnames :: "NodeAddress list" where
  "two_hostnames =
     [\<lparr>Type = ''Hostname'', Address = ''node1''\<rparr>,
      \<lparr>Type = ''Hostname'', Address = ''node1.example.com''\<rparr>,
      \<lparr>Type = ''ExternalIP'', Address = ''198.51.100.7''\<rparr>]"

definition two_hostnames_written :: "NodeAddress list" where
  "two_hostnames_written =
     [\<lparr>Type = ''Hostname'', Address = ''node1.example.com''\<rparr>,
      \<lparr>Type = ''ExternalIP'', Address = ''203.0.113.10''\<rparr>]"

definition two_internal :: "NodeAddress list" where
  "two_internal =
     [\<lparr>Type = ''InternalIP'', Address = ''192.168.1.1''\<rparr>,
      \<lparr>Type = ''InternalIP'', Address = ''fd00::1''\<rparr>,
      \<lparr>Type = ''ExternalIP'', Address = ''198.51.100.7''\<rparr>]"

definition two_internal_written :: "NodeAddress list" where
  "two_internal_written =
     [\<lparr>Type = ''InternalIP'', Address = ''fd00::1''\<rparr>,
      \<lparr>Type = ''ExternalIP'', Address = ''203.0.113.10''\<rparr>]"

section \<open>Evaluation and basic facts\<close>

lemmas eval_defs =
  reconcile_def GetNode_def Nodes_Get_def request_def detectInternal_def DetectIP_def
  applyExternalIP_def mapToSlice_def range_order_def seedAddressMap_def addressesEqual_def
  stringMap_def index_def UpdateAddresses_def Nodes_Patch_def apply_patch_def RemoveTaint_def
  taintIndex_of_def issued_def addressesOf_def taintsOf_def Let_def
  DAList.lookup.rep_eq DAList.update.rep_eq DAList.delete.rep_eq DAList.empty.rep_eq
  NodeInternalIP_def NodeExternalIP_def NodeHostName_def TaintKey_def

lemmas fixture_defs =
  host_ex_def cfg_external_only_def cfg_same_target_def cfg_unroutable_def updater_ex_def
  node_of_def cluster_of_def uninitialized_def uninitialized_noexec_def dedicated_def
  kubelet_addresses_def dual_stack_addresses_def dual_stack_desired_def two_hostnames_def
  two_hostnames_written_def two_internal_def two_internal_written_def

subsection \<open>The order of a range\<close>

lemma visit_step:
  "xs \<noteq> [] \<Longrightarrow>
   visit (i # ord) xs =
     xs ! (i mod length xs) # visit ord (take (i mod length xs) xs @ drop (Suc (i mod length xs)) xs)"
  by (cases xs) (simp_all add: Let_def)

lemma mset_remove_nth:
  "j < length xs \<Longrightarrow> mset xs = add_mset (xs ! j) (mset (take j xs @ drop (Suc j) xs))"
proof -
  assume "j < length xs"
  then have "xs = take j xs @ xs ! j # drop (Suc j) xs" by (rule id_take_nth_drop)
  then have "mset xs = mset (take j xs @ xs ! j # drop (Suc j) xs)" by simp
  then show ?thesis by simp
qed

lemma mset_visit: "mset (visit ord xs) = mset xs"
proof (induction ord xs rule: visit.induct)
  case (3 i ord x xs)
  let ?ys = "x # xs"
  let ?j = "i mod length ?ys"
  have j: "?j < length ?ys" by simp
  have ih: "mset (visit ord (take ?j ?ys @ drop (Suc ?j) ?ys)) = mset (take ?j ?ys @ drop (Suc ?j) ?ys)"
    using 3 by blast
  have "visit (i # ord) ?ys = ?ys ! ?j # visit ord (take ?j ?ys @ drop (Suc ?j) ?ys)"
    by (rule visit_step) simp
  then have "mset (visit (i # ord) ?ys) = add_mset (?ys ! ?j) (mset (take ?j ?ys @ drop (Suc ?j) ?ys))"
    using ih by (simp only: mset.simps)
  also have "\<dots> = mset ?ys" using mset_remove_nth[OF j] by simp
  finally show ?case .
qed simp_all

lemma set_visit [simp]: "set (visit ord xs) = set xs"
  by (metis mset_visit set_mset_mset)

lemma length_visit [simp]: "length (visit ord xs) = length xs"
  by (metis mset_visit size_mset)

lemma distinct_fst_visit: "distinct (map fst xs) \<Longrightarrow> distinct (map fst (visit ord xs))"
  by (metis card_distinct distinct_card length_map length_visit set_map set_visit)

lemma visit_complete: "mset ys = mset xs \<Longrightarrow> \<exists>ord. visit ord xs = ys"
proof (induction ys arbitrary: xs)
  case Nil
  then show ?case by simp
next
  case (Cons y ys)
  then have "y \<in> set xs" by (metis list.set_intros(1) set_mset_mset)
  then obtain j where j: "j < length xs" "xs ! j = y" by (auto simp: in_set_conv_nth)
  let ?rest = "take j xs @ drop (Suc j) xs"
  have "mset xs = add_mset y (mset ?rest)" using mset_remove_nth[OF j(1)] j(2) by simp
  with Cons.prems have "mset ys = mset ?rest" by simp
  from Cons.IH[OF this] obtain ord where ord: "visit ord ?rest = ys" by blast
  from j have ne: "xs \<noteq> []" by auto
  have "visit (j # ord) xs = y # ys"
    using j ord by (simp add: visit_step[OF ne])
  then show ?case by blast
qed

subsection \<open>Maps seeded from address lists\<close>

lemma lookup_fold_update:
  "DAList.lookup (fold (\<lambda>addr m. DAList.update (Type addr) (Address addr) m) addrs m0) =
     DAList.lookup m0 ++ map_of (rev (map (\<lambda>a. (Type a, Address a)) addrs))"
proof (induction addrs arbitrary: m0)
  case Nil
  then show ?case by simp
next
  case (Cons a addrs)
  have "DAList.lookup (DAList.update (Type a) (Address a) m0) ++
          map_of (rev (map (\<lambda>a. (Type a, Address a)) addrs)) =
        DAList.lookup m0 ++ map_of (rev (map (\<lambda>a. (Type a, Address a)) (a # addrs)))"
    by (rule ext) (simp add: DAList.lookup_update map_add_def split: option.splits)
  with Cons.IH [of "DAList.update (Type a) (Address a) m0"] show ?case by simp
qed

lemma lookup_seedAddressMap:
  "DAList.lookup (seedAddressMap addrs) = map_of (rev (map (\<lambda>a. (Type a, Address a)) addrs))"
  by (simp add: seedAddressMap_def lookup_fold_update) (simp add: DAList.lookup_empty [abs_def] map_add_def)

lemma stringMap_eq: "stringMap = seedAddressMap"
  by (rule ext) (simp add: stringMap_def seedAddressMap_def)

lemma in_impl_of: "(k, v) \<in> set (DAList.impl_of m) \<longleftrightarrow> DAList.lookup m k = Some v"
  by (simp add: DAList.lookup.rep_eq)

lemma in_mapToSlice: "a \<in> set (mapToSlice ord m) \<longleftrightarrow> DAList.lookup m (Type a) = Some (Address a)"
proof -
  have "a \<in> set (mapToSlice ord m) \<longleftrightarrow> (Type a, Address a) \<in> set (DAList.impl_of m)"
    by (cases a) (force simp: mapToSlice_def range_order_def image_iff)
  then show ?thesis by (simp add: in_impl_of)
qed

lemma map_Type_mapToSlice: "map Type (mapToSlice ord m) = map fst (range_order ord m)"
  by (simp add: mapToSlice_def case_prod_unfold comp_def)

lemma entries_mapToSlice: "map (\<lambda>a. (Type a, Address a)) (mapToSlice ord m) = range_order ord m"
  by (simp add: mapToSlice_def case_prod_unfold comp_def)

lemma distinct_range_order: "distinct (map fst (range_order ord m))"
  by (simp add: range_order_def distinct_fst_visit)

lemma distinct_mapToSlice: "distinct (map Type (mapToSlice ord m))"
  by (simp add: map_Type_mapToSlice distinct_range_order)

lemma length_mapToSlice: "length (mapToSlice ord m) = length (DAList.impl_of m)"
  by (simp add: mapToSlice_def range_order_def)

lemma length_impl_of: "length (DAList.impl_of m) = card (dom (DAList.lookup m))"
proof -
  have "card (dom (DAList.lookup m)) = card (set (map fst (DAList.impl_of m)))"
    by (simp add: DAList.lookup.rep_eq dom_map_of_conv_image_fst)
  also have "\<dots> = length (map fst (DAList.impl_of m))"
    by (rule distinct_card) simp
  finally show ?thesis by simp
qed

lemma map_of_rev_distinct: "distinct (map fst xs) \<Longrightarrow> map_of (rev xs) = map_of xs"
proof (rule ext)
  fix k assume d: "distinct (map fst xs)"
  then have d': "distinct (map fst (rev xs))" by (simp add: rev_map [symmetric])
  show "map_of (rev xs) k = map_of xs k"
  proof (cases "map_of xs k")
    case None
    then have "k \<notin> fst ` set xs" by (simp add: map_of_eq_None_iff)
    then have "k \<notin> fst ` set (rev xs)" by simp
    then have "map_of (rev xs) k = None" by (simp add: map_of_eq_None_iff)
    with None show ?thesis by simp
  next
    case (Some v)
    then have "(k, v) \<in> set (rev xs)" using d by simp
    then have "map_of (rev xs) k = Some v" using d' by (simp only: map_of_eq_Some_iff)
    with Some show ?thesis by simp
  qed
qed

lemma lookup_seed_mapToSlice: "DAList.lookup (seedAddressMap (mapToSlice ord m)) = DAList.lookup m"
proof -
  have "DAList.lookup (seedAddressMap (mapToSlice ord m)) = map_of (rev (range_order ord m))"
    by (simp only: lookup_seedAddressMap entries_mapToSlice)
  also have "\<dots> = map_of (range_order ord m)"
    by (rule map_of_rev_distinct) (rule distinct_range_order)
  also have "\<dots> = DAList.lookup m"
  proof (rule ext)
    fix k
    show "map_of (range_order ord m) k = DAList.lookup m k"
    proof (cases "DAList.lookup m k")
      case None
      then have "k \<notin> fst ` set (DAList.impl_of m)" by (simp add: DAList.lookup.rep_eq map_of_eq_None_iff)
      then have "map_of (range_order ord m) k = None" by (simp add: range_order_def map_of_eq_None_iff)
      with None show ?thesis by simp
    next
      case (Some v)
      then have "(k, v) \<in> set (range_order ord m)" by (simp add: range_order_def in_impl_of)
      then have "map_of (range_order ord m) k = Some v"
        using distinct_range_order[of ord m] by simp
      with Some show ?thesis by simp
    qed
  qed
  finally show ?thesis .
qed

lemma addressesEqual_iff:
  "addressesEqual a b \<longleftrightarrow>
     length a = length b \<and>
     (\<forall>k v. DAList.lookup (seedAddressMap a) k = Some v \<longrightarrow> index (seedAddressMap b) k = v)"
proof -
  have "list_all (\<lambda>(k, v). P k v) (DAList.impl_of m) \<longleftrightarrow>
        (\<forall>k v. DAList.lookup m k = Some v \<longrightarrow> P k v)" for P and m :: "string gomap"
    by (auto simp: list_all_iff in_impl_of [symmetric])
  then show ?thesis by (simp add: addressesEqual_def stringMap_eq Let_def)
qed

lemma lookup_applyExternalIP:
  "DAList.lookup (applyExternalIP E m) =
     (if DAList.lookup m NodeInternalIP = Some E then (DAList.lookup m)(NodeExternalIP := None)
      else (DAList.lookup m)(NodeExternalIP \<mapsto> E))"
  by (rule ext) (auto simp: applyExternalIP_def DAList.lookup_update split: option.splits)

lemma lookup_detectInternal:
  "detectInternal cfg h m = Inr m' \<Longrightarrow>
   DAList.lookup m' =
     (if internalIPTarget cfg \<noteq> []
      then (case DetectIP h (internalIPTarget cfg) of Inr ip \<Rightarrow> (DAList.lookup m)(NodeInternalIP \<mapsto> ip) | Inl _ \<Rightarrow> DAList.lookup m)
      else DAList.lookup m)"
  by (rule ext) (auto simp: detectInternal_def DAList.lookup_update split: sum.splits if_splits)

subsection \<open>Effects of the API requests\<close>

lemma Nodes_Get_effect:
  "nodes (snd (Nodes_Get name w)) = nodes w"
  "calls (snd (Nodes_Get name w)) = calls w @ [Get name]"
  "faults (snd (Nodes_Get name w)) = tl (faults w)"
  by (simp_all add: Nodes_Get_def request_def split: prod.splits bool.splits option.splits list.splits)

lemma Nodes_Get_Inr:
  "fst (Nodes_Get name w) = Inr n \<Longrightarrow> nodes w name = Some n"
  by (auto simp: Nodes_Get_def request_def split: prod.splits bool.splits option.splits list.splits if_splits)

lemma Nodes_Patch_effect:
  "calls (snd (Nodes_Patch name p w)) = calls w @ [Patch name p]"
  "faults (snd (Nodes_Patch name p w)) = tl (faults w)"
  by (simp_all add: Nodes_Patch_def request_def split: prod.splits bool.splits option.splits list.splits)

lemma Nodes_Patch_nodes:
  "nodes (snd (Nodes_Patch name p w)) =
     (case fst (Nodes_Patch name p w) of
        Inl _ \<Rightarrow> nodes w
      | Inr n' \<Rightarrow> (nodes w)(name \<mapsto> n'))"
  by (simp add: Nodes_Patch_def request_def split: prod.splits bool.splits option.splits list.splits)

lemma Nodes_Patch_Inr:
  "fst (Nodes_Patch name p w) = Inr n' \<Longrightarrow> \<exists>n. nodes w name = Some n \<and> n' = apply_patch p n"
  by (auto simp: Nodes_Patch_def request_def split: prod.splits bool.splits option.splits list.splits if_splits)

lemma issued_append [simp]: "calls w' = calls w @ cs \<Longrightarrow> issued w w' = cs"
  by (simp add: issued_def)

lemma UpdateAddresses_calls:
  "calls (snd (UpdateAddresses u addrs w)) =
     calls w @ [Patch (nodeName u) (ReplaceStatusAddresses addrs)]"
  using Nodes_Patch_effect(1) [of "nodeName u" "ReplaceStatusAddresses addrs" w]
  by (auto simp: UpdateAddresses_def split: prod.splits sum.splits)

lemma UpdateAddresses_ok:
  assumes "UpdateAddresses u addrs w = (Inr (), w')"
  shows "addressesOf w' (nodeName u) = Some addrs" and "taintsOf w' = taintsOf w"
    and "\<exists>n. nodes w (nodeName u) = Some n"
proof -
  let ?p = "ReplaceStatusAddresses addrs"
  obtain r where p: "Nodes_Patch (nodeName u) ?p w = (r, w')"
    using assms by (auto simp: UpdateAddresses_def split: prod.splits sum.splits)
  with assms obtain n' where r: "r = Inr n'"
    by (cases r) (auto simp: UpdateAddresses_def)
  from Nodes_Patch_Inr [of "nodeName u" ?p w n'] p r
  obtain n where n: "nodes w (nodeName u) = Some n" "n' = apply_patch ?p n" by auto
  from Nodes_Patch_nodes [of "nodeName u" ?p w] p r
  have w': "nodes w' = (nodes w)(nodeName u \<mapsto> n')" by simp
  show "addressesOf w' (nodeName u) = Some addrs"
    using w' n by (simp add: addressesOf_def apply_patch_def)
  show "taintsOf w' = taintsOf w"
    using w' n by (auto simp: taintsOf_def apply_patch_def fun_eq_iff)
  show "\<exists>n. nodes w (nodeName u) = Some n" using n by blast
qed

lemma taintIndex_from_absent:
  "list_all (\<lambda>t. Key t \<noteq> TaintKey) ts \<Longrightarrow> taintIndex_from i ts = - 1"
  by (induction ts arbitrary: i) auto

lemma taintIndex_from_first:
  "list_all (\<lambda>t. Key t \<noteq> TaintKey) pre \<Longrightarrow> Key t = TaintKey \<Longrightarrow>
   taintIndex_from i (pre @ t # post) = int (i + length pre)"
  by (induction pre arbitrary: i) auto

lemma taints_split:
  "list_all (\<lambda>t. Key t \<noteq> TaintKey) ts \<or>
   (\<exists>pre t post. ts = pre @ t # post \<and> list_all (\<lambda>t. Key t \<noteq> TaintKey) pre \<and> Key t = TaintKey)"
proof (induction ts)
  case Nil
  then show ?case by simp
next
  case (Cons a ts)
  show ?case
  proof (cases "Key a = TaintKey")
    case True
    then have "a # ts = [] @ a # ts \<and> list_all (\<lambda>t. Key t \<noteq> TaintKey) [] \<and> Key a = TaintKey" by simp
    then show ?thesis by blast
  next
    case False
    from Cons show ?thesis
    proof
      assume "list_all (\<lambda>t. Key t \<noteq> TaintKey) ts"
      with False show ?thesis by simp
    next
      assume "\<exists>pre t post. ts = pre @ t # post \<and> list_all (\<lambda>t. Key t \<noteq> TaintKey) pre \<and> Key t = TaintKey"
      then obtain pre t post where "ts = pre @ t # post" "list_all (\<lambda>t. Key t \<noteq> TaintKey) pre" "Key t = TaintKey"
        by blast
      with False have "a # ts = (a # pre) @ t # post \<and> list_all (\<lambda>t. Key t \<noteq> TaintKey) (a # pre) \<and> Key t = TaintKey"
        by simp
      then show ?thesis by blast
    qed
  qed
qed

text \<open>What a call of RemoveTaint does, by the three ways it can run.\<close>

lemma RemoveTaint_run:
  "(\<exists>e. fst (Nodes_Get (nodeName u) w) = Inl e \<and>
        RemoveTaint u w = (Inl (FailedToGetNode e), snd (Nodes_Get (nodeName u) w)))
   \<or> (\<exists>node. fst (Nodes_Get (nodeName u) w) = Inr node \<and>
        list_all (\<lambda>t. Key t \<noteq> TaintKey) (Taints (Spec node)) \<and>
        RemoveTaint u w = (Inr (), snd (Nodes_Get (nodeName u) w)))
   \<or> (\<exists>node pre t post. fst (Nodes_Get (nodeName u) w) = Inr node \<and>
        Taints (Spec node) = pre @ t # post \<and>
        list_all (\<lambda>t. Key t \<noteq> TaintKey) pre \<and> Key t = TaintKey \<and>
        RemoveTaint u w =
          (case Nodes_Patch (nodeName u) (ReplaceSpecTaints (pre @ post)) (snd (Nodes_Get (nodeName u) w)) of
             (Inl err, w2) \<Rightarrow> (Inl (FailedToRemoveTaint err), w2)
           | (Inr _, w2) \<Rightarrow> (Inr (), w2)))"
proof -
  obtain r w1 where g: "Nodes_Get (nodeName u) w = (r, w1)" by (cases "Nodes_Get (nodeName u) w")
  show ?thesis
  proof (cases r)
    case (Inl e)
    with g show ?thesis by (simp add: RemoveTaint_def)
  next
    case (Inr node)
    from taints_split [of "Taints (Spec node)"] show ?thesis
    proof
      assume a: "list_all (\<lambda>t. Key t \<noteq> TaintKey) (Taints (Spec node))"
      with g Inr show ?thesis
        by (simp add: RemoveTaint_def taintIndex_of_def taintIndex_from_absent)
    next
      assume "\<exists>pre t post. Taints (Spec node) = pre @ t # post \<and>
                list_all (\<lambda>t. Key t \<noteq> TaintKey) pre \<and> Key t = TaintKey"
      then obtain pre t post where s: "Taints (Spec node) = pre @ t # post"
        "list_all (\<lambda>t. Key t \<noteq> TaintKey) pre" "Key t = TaintKey" by blast
      have idx: "taintIndex_of (Taints (Spec node)) = int (length pre)"
        using s taintIndex_from_first [of pre t 0 post] by (simp add: taintIndex_of_def)
      have "RemoveTaint u w =
          (case Nodes_Patch (nodeName u) (ReplaceSpecTaints (pre @ post)) w1 of
             (Inl err, w2) \<Rightarrow> (Inl (FailedToRemoveTaint err), w2)
           | (Inr _, w2) \<Rightarrow> (Inr (), w2))"
        using g Inr idx s(1) by (simp add: RemoveTaint_def)
      with g Inr s show ?thesis by auto
    qed
  qed
qed

lemma RemoveTaint_calls:
  "\<exists>cs. calls (snd (RemoveTaint u w)) = calls w @ cs \<and> list_all (\<lambda>c. \<not> addressWrite c) cs"
proof -
  let ?w1 = "snd (Nodes_Get (nodeName u) w)"
  have c1: "calls ?w1 = calls w @ [Get (nodeName u)]" by (rule Nodes_Get_effect)
  have c2: "calls (snd (Nodes_Patch (nodeName u) (ReplaceSpecTaints ts) ?w1)) =
            calls w @ [Get (nodeName u), Patch (nodeName u) (ReplaceSpecTaints ts)]" for ts
    by (simp add: Nodes_Patch_effect c1)
  from RemoveTaint_run [of u w] show ?thesis
  proof (elim disjE exE conjE)
    fix e assume "RemoveTaint u w = (Inl (FailedToGetNode e), ?w1)"
    with c1 show ?thesis by simp
  next
    fix node assume "RemoveTaint u w = (Inr (), ?w1)"
    with c1 show ?thesis by simp
  next
    fix node pre t post
    assume "RemoveTaint u w =
          (case Nodes_Patch (nodeName u) (ReplaceSpecTaints (pre @ post)) ?w1 of
             (Inl err, w2) \<Rightarrow> (Inl (FailedToRemoveTaint err), w2)
           | (Inr _, w2) \<Rightarrow> (Inr (), w2))"
    then have "snd (RemoveTaint u w) = snd (Nodes_Patch (nodeName u) (ReplaceSpecTaints (pre @ post)) ?w1)"
      by (simp split: prod.splits sum.splits)
    with c2 [of "pre @ post"] show ?thesis by simp
  qed
qed

lemma RemoveTaint_addresses: "addressesOf (snd (RemoveTaint u w)) = addressesOf w"
proof -
  let ?w1 = "snd (Nodes_Get (nodeName u) w)"
  have n1: "nodes ?w1 = nodes w" by (rule Nodes_Get_effect)
  have n2: "addressesOf (snd (Nodes_Patch (nodeName u) (ReplaceSpecTaints ts) ?w1)) = addressesOf w" for ts
  proof (cases "fst (Nodes_Patch (nodeName u) (ReplaceSpecTaints ts) ?w1)")
    case (Inl e)
    then show ?thesis using Nodes_Patch_nodes [of "nodeName u" "ReplaceSpecTaints ts" ?w1] n1
      by (simp add: addressesOf_def fun_eq_iff)
  next
    case (Inr n')
    from Nodes_Patch_Inr [OF Inr] n1 obtain n where
      n: "nodes w (nodeName u) = Some n" "n' = apply_patch (ReplaceSpecTaints ts) n" by auto
    then show ?thesis using Nodes_Patch_nodes [of "nodeName u" "ReplaceSpecTaints ts" ?w1] n1 Inr
      by (auto simp: addressesOf_def fun_eq_iff apply_patch_def)
  qed
  from RemoveTaint_run [of u w] show ?thesis
  proof (elim disjE exE conjE)
    fix e assume "RemoveTaint u w = (Inl (FailedToGetNode e), ?w1)"
    with n1 show ?thesis by (simp add: addressesOf_def fun_eq_iff)
  next
    fix node assume "RemoveTaint u w = (Inr (), ?w1)"
    with n1 show ?thesis by (simp add: addressesOf_def fun_eq_iff)
  next
    fix node pre t post
    assume "RemoveTaint u w =
          (case Nodes_Patch (nodeName u) (ReplaceSpecTaints (pre @ post)) ?w1 of
             (Inl err, w2) \<Rightarrow> (Inl (FailedToRemoveTaint err), w2)
           | (Inr _, w2) \<Rightarrow> (Inr (), w2))"
    then have "snd (RemoveTaint u w) = snd (Nodes_Patch (nodeName u) (ReplaceSpecTaints (pre @ post)) ?w1)"
      by (simp split: prod.splits sum.splits)
    with n2 [of "pre @ post"] show ?thesis by simp
  qed
qed

lemma RemoveTaint_writes:
  assumes "Patch nm (ReplaceSpecTaints ts) \<in> set (issued w (snd (RemoveTaint u w)))"
  shows "\<exists>old. taintsOf w (nodeName u) = Some old \<and>
           filter (\<lambda>t. Key t \<noteq> TaintKey) ts = filter (\<lambda>t. Key t \<noteq> TaintKey) old"
proof -
  let ?w1 = "snd (Nodes_Get (nodeName u) w)"
  have c1: "calls ?w1 = calls w @ [Get (nodeName u)]" by (rule Nodes_Get_effect)
  have c2: "calls (snd (Nodes_Patch (nodeName u) (ReplaceSpecTaints ts') ?w1)) =
            calls w @ [Get (nodeName u), Patch (nodeName u) (ReplaceSpecTaints ts')]" for ts'
    by (simp add: Nodes_Patch_effect c1)
  from RemoveTaint_run [of u w] show ?thesis
  proof (elim disjE exE conjE)
    fix e assume "RemoveTaint u w = (Inl (FailedToGetNode e), ?w1)"
    with c1 assms show ?thesis by simp
  next
    fix node assume "RemoveTaint u w = (Inr (), ?w1)"
    with c1 assms show ?thesis by simp
  next
    fix node pre t post
    assume g: "fst (Nodes_Get (nodeName u) w) = Inr node"
      and s: "Taints (Spec node) = pre @ t # post" "list_all (\<lambda>t. Key t \<noteq> TaintKey) pre" "Key t = TaintKey"
      and "RemoveTaint u w =
          (case Nodes_Patch (nodeName u) (ReplaceSpecTaints (pre @ post)) ?w1 of
             (Inl err, w2) \<Rightarrow> (Inl (FailedToRemoveTaint err), w2)
           | (Inr _, w2) \<Rightarrow> (Inr (), w2))"
    then have "snd (RemoveTaint u w) = snd (Nodes_Patch (nodeName u) (ReplaceSpecTaints (pre @ post)) ?w1)"
      by (simp split: prod.splits sum.splits)
    with c2 [of "pre @ post"] assms have ts: "ts = pre @ post" by simp
    from Nodes_Get_Inr [OF g] s(1) have "taintsOf w (nodeName u) = Some (pre @ t # post)"
      by (simp add: taintsOf_def)
    with ts s(3) show ?thesis by simp
  qed
qed

subsection \<open>The paths through a reconciliation cycle\<close>

lemma taint_stage:
  fixes cfg :: Config and u :: Updater and w2 :: Cluster
  defines "out \<equiv> (if removeTaint cfg then
                     (case RemoveTaint u w2 of
                        (Inl err, w3) \<Rightarrow> (Inl (FailedRemoveTaint err), w3)
                      | (Inr _, w3) \<Rightarrow> (Inr (), w3))
                   else (Inr (), w2))"
  shows "\<exists>rest. calls (snd out) = calls w2 @ rest \<and> list_all (\<lambda>c. \<not> addressWrite c) rest \<and>
           (\<forall>nm ts. Patch nm (ReplaceSpecTaints ts) \<in> set rest \<longrightarrow>
              (\<exists>old. taintsOf w2 (nodeName u) = Some old \<and>
                 filter (\<lambda>t. Key t \<noteq> TaintKey) ts = filter (\<lambda>t. Key t \<noteq> TaintKey) old))"
    and "addressesOf (snd out) = addressesOf w2"
proof -
  have s: "snd out = (if removeTaint cfg then snd (RemoveTaint u w2) else w2)"
    by (simp add: out_def split: prod.splits sum.splits)
  show "addressesOf (snd out) = addressesOf w2"
    by (simp add: s RemoveTaint_addresses)
  show "\<exists>rest. calls (snd out) = calls w2 @ rest \<and> list_all (\<lambda>c. \<not> addressWrite c) rest \<and>
           (\<forall>nm ts. Patch nm (ReplaceSpecTaints ts) \<in> set rest \<longrightarrow>
              (\<exists>old. taintsOf w2 (nodeName u) = Some old \<and>
                 filter (\<lambda>t. Key t \<noteq> TaintKey) ts = filter (\<lambda>t. Key t \<noteq> TaintKey) old))"
  proof (cases "removeTaint cfg")
    case False
    with s have "calls (snd out) = calls w2 @ []" by simp
    then show ?thesis by (intro exI [of _ "[]"]) simp
  next
    case True
    from RemoveTaint_calls [of u w2] obtain cs where
      cs: "calls (snd (RemoveTaint u w2)) = calls w2 @ cs" "list_all (\<lambda>c. \<not> addressWrite c) cs"
      by blast
    then have i: "issued w2 (snd (RemoveTaint u w2)) = cs" by simp
    have "\<forall>nm ts. Patch nm (ReplaceSpecTaints ts) \<in> set cs \<longrightarrow>
              (\<exists>old. taintsOf w2 (nodeName u) = Some old \<and>
                 filter (\<lambda>t. Key t \<noteq> TaintKey) ts = filter (\<lambda>t. Key t \<noteq> TaintKey) old)"
      using RemoveTaint_writes [of _ _ w2 u] i by simp
    with cs True s show ?thesis by auto
  qed
qed

lemma reconcile_early:
  assumes "isl (fst (Nodes_Get (nodeName u) w)) \<or>
           (\<exists>node. fst (Nodes_Get (nodeName u) w) = Inr node \<and>
              (isl (detectInternal cfg h (seedAddressMap (Addresses (Status node)))) \<or>
               isl (DetectIP h (externalIPTarget cfg))))"
  shows "isl (fst (reconcile cfg h ord u w))"
    and "nodes (snd (reconcile cfg h ord u w)) = nodes w"
    and "calls (snd (reconcile cfg h ord u w)) = calls w @ [Get (nodeName u)]"
proof -
  obtain r w1 where g: "Nodes_Get (nodeName u) w = (r, w1)" by (cases "Nodes_Get (nodeName u) w")
  from Nodes_Get_effect [of "nodeName u" w] g
  have w1: "nodes w1 = nodes w" "calls w1 = calls w @ [Get (nodeName u)]" by simp_all
  have "isl (fst (reconcile cfg h ord u w)) \<and> snd (reconcile cfg h ord u w) = w1"
    using assms g by (auto simp: reconcile_def GetNode_def isl_def split: sum.splits)
  with w1 show "isl (fst (reconcile cfg h ord u w))"
    and "nodes (snd (reconcile cfg h ord u w)) = nodes w"
    and "calls (snd (reconcile cfg h ord u w)) = calls w @ [Get (nodeName u)]" by simp_all
qed

lemma reconcile_computed:
  fixes ord :: "nat list"
  assumes g: "fst (Nodes_Get (nodeName u) w) = Inr node"
    and m: "detectInternal cfg h (seedAddressMap (Addresses (Status node))) = Inr m"
    and E: "DetectIP h (externalIPTarget cfg) = Inr E"
  defines "addrs \<equiv> mapToSlice ord (applyExternalIP E m)"
  defines "same \<equiv> addressesEqual (Addresses (Status node)) addrs"
  shows "\<exists>rest. calls (snd (reconcile cfg h ord u w)) =
           calls w @ Get (nodeName u) #
             (if same then [] else [Patch (nodeName u) (ReplaceStatusAddresses addrs)]) @ rest \<and>
           list_all (\<lambda>c. \<not> addressWrite c) rest \<and>
           (\<forall>nm ts. Patch nm (ReplaceSpecTaints ts) \<in> set rest \<longrightarrow>
              filter (\<lambda>t. Key t \<noteq> TaintKey) ts =
              filter (\<lambda>t. Key t \<noteq> TaintKey) (Taints (Spec node)))"
    and "fst (reconcile cfg h ord u w) = Inr () \<Longrightarrow>
         addressesOf (snd (reconcile cfg h ord u w)) (nodeName u) =
           Some (if same then Addresses (Status node) else addrs)"
proof -
  obtain w1 where g': "Nodes_Get (nodeName u) w = (Inr node, w1)"
    using g by (cases "Nodes_Get (nodeName u) w") simp
  from Nodes_Get_effect [of "nodeName u" w] g'
  have w1: "nodes w1 = nodes w" "calls w1 = calls w @ [Get (nodeName u)]" by simp_all
  from Nodes_Get_Inr [OF g] have node: "nodes w (nodeName u) = Some node" .
  define stage where "stage w2 = (if removeTaint cfg then
                     (case RemoveTaint u w2 of
                        (Inl err, w3) \<Rightarrow> (Inl (FailedRemoveTaint err), w3)
                      | (Inr _, w3) \<Rightarrow> (Inr (), w3))
                   else (Inr (), w2))" for w2
  have run: "reconcile cfg h ord u w =
      (case (if same then (Inr (), w1) else UpdateAddresses u addrs w1) of
         (Inl err, w2) \<Rightarrow> (Inl (FailedUpdateAddresses err), w2)
       | (Inr _, w2) \<Rightarrow> stage w2)"
    using g' m E
    by (simp add: reconcile_def GetNode_def same_def addrs_def stage_def Let_def
          split: prod.splits sum.splits)
  have st: "\<exists>rest. calls (snd (stage w2)) = calls w2 @ rest \<and> list_all (\<lambda>c. \<not> addressWrite c) rest \<and>
           (\<forall>nm ts. Patch nm (ReplaceSpecTaints ts) \<in> set rest \<longrightarrow>
              (\<exists>old. taintsOf w2 (nodeName u) = Some old \<and>
                 filter (\<lambda>t. Key t \<noteq> TaintKey) ts = filter (\<lambda>t. Key t \<noteq> TaintKey) old))"
    and sa: "addressesOf (snd (stage w2)) = addressesOf w2" for w2
    unfolding stage_def by (rule taint_stage)+
  let ?goal1 = "\<exists>rest. calls (snd (reconcile cfg h ord u w)) =
           calls w @ Get (nodeName u) #
             (if same then [] else [Patch (nodeName u) (ReplaceStatusAddresses addrs)]) @ rest \<and>
           list_all (\<lambda>c. \<not> addressWrite c) rest \<and>
           (\<forall>nm ts. Patch nm (ReplaceSpecTaints ts) \<in> set rest \<longrightarrow>
              filter (\<lambda>t. Key t \<noteq> TaintKey) ts =
              filter (\<lambda>t. Key t \<noteq> TaintKey) (Taints (Spec node)))"
  let ?goal2 = "fst (reconcile cfg h ord u w) = Inr () \<longrightarrow>
         addressesOf (snd (reconcile cfg h ord u w)) (nodeName u) =
           Some (if same then Addresses (Status node) else addrs)"
  have "?goal1 \<and> ?goal2"
  proof (cases same)
    case True
    then have r: "reconcile cfg h ord u w = stage w1" using run by simp
    have t: "taintsOf w1 (nodeName u) = Some (Taints (Spec node))"
      using w1 node by (simp add: taintsOf_def)
    have a: "addressesOf w1 (nodeName u) = Some (Addresses (Status node))"
      using w1 node by (simp add: addressesOf_def)
    from st [of w1] t w1 True r have ?goal1 by auto
    moreover from sa [of w1] a True r have ?goal2 by simp
    ultimately show ?thesis ..
  next
    case False
    obtain r2 w2 where upd: "UpdateAddresses u addrs w1 = (r2, w2)"
      by (cases "UpdateAddresses u addrs w1")
    from UpdateAddresses_calls [of u addrs w1] upd w1
    have c2: "calls w2 = calls w @ [Get (nodeName u), Patch (nodeName u) (ReplaceStatusAddresses addrs)]"
      by simp
    show ?thesis
    proof (cases r2)
      case (Inl e)
      with run False upd have "reconcile cfg h ord u w = (Inl (FailedUpdateAddresses e), w2)" by simp
      with c2 False show ?thesis by simp
    next
      case (Inr x)
      with run False upd have r: "reconcile cfg h ord u w = stage w2" by simp
      from upd Inr have ok: "UpdateAddresses u addrs w1 = (Inr (), w2)" by simp
      from UpdateAddresses_ok [OF ok] w1 node
      have a: "addressesOf w2 (nodeName u) = Some addrs"
        and t: "taintsOf w2 (nodeName u) = Some (Taints (Spec node))"
        by (simp_all add: taintsOf_def)
      from st [of w2] t c2 False r have ?goal1 by auto
      moreover from sa [of w2] a False r have ?goal2 by simp
      ultimately show ?thesis ..
    qed
  qed
  then show ?goal1 and "fst (reconcile cfg h ord u w) = Inr () \<Longrightarrow>
         addressesOf (snd (reconcile cfg h ord u w)) (nodeName u) =
           Some (if same then Addresses (Status node) else addrs)" by simp_all
qed

subsection \<open>Seeding, comparison and stability\<close>

lemma NodeInternalIP_neq_NodeExternalIP [simp]:
  "NodeInternalIP \<noteq> NodeExternalIP" "NodeExternalIP \<noteq> NodeInternalIP"
  by (simp_all add: NodeInternalIP_def NodeExternalIP_def)

lemma NodeAddress_eqI: "Type a = Type b \<Longrightarrow> Address a = Address b \<Longrightarrow> a = (b :: NodeAddress)"
  by (cases a, cases b) simp

lemma seed_last:
  assumes "addrs = pre @ a # post" and "list_all (\<lambda>b. Type b \<noteq> Type a) post"
  shows "DAList.lookup (seedAddressMap addrs) (Type a) = Some (Address a)"
proof -
  have "Type a \<notin> fst ` set (rev (map (\<lambda>a. (Type a, Address a)) post))"
    using assms(2) by (auto simp: list_all_iff)
  then have "map_of (rev (map (\<lambda>a. (Type a, Address a)) post)) (Type a) = None"
    by (simp add: map_of_eq_None_iff)
  then show ?thesis
    by (simp add: lookup_seedAddressMap assms(1) map_add_def)
qed

lemma seed_sound:
  "DAList.lookup (seedAddressMap addrs) k = Some v \<Longrightarrow> \<lparr>Type = k, Address = v\<rparr> \<in> set addrs"
proof -
  assume "DAList.lookup (seedAddressMap addrs) k = Some v"
  then have "(k, v) \<in> set (rev (map (\<lambda>a. (Type a, Address a)) addrs))"
    by (simp only: lookup_seedAddressMap) (rule map_of_SomeD)
  then obtain a where "a \<in> set addrs" "Type a = k" "Address a = v" by auto
  moreover then have "a = \<lparr>Type = k, Address = v\<rparr>" by (intro NodeAddress_eqI) simp_all
  ultimately show ?thesis by simp
qed

lemma seed_distinct:
  assumes "distinct (map Type addrs)"
  shows "DAList.lookup (seedAddressMap addrs) k = Some v \<longleftrightarrow> \<lparr>Type = k, Address = v\<rparr> \<in> set addrs"
proof
  assume "\<lparr>Type = k, Address = v\<rparr> \<in> set addrs"
  then obtain pre post where s: "addrs = pre @ \<lparr>Type = k, Address = v\<rparr> # post"
    by (auto simp: in_set_conv_decomp)
  with assms have "list_all (\<lambda>b. Type b \<noteq> k) post" by (auto simp: list_all_iff)
  with seed_last [of addrs pre "\<lparr>Type = k, Address = v\<rparr>" post] s
  show "DAList.lookup (seedAddressMap addrs) k = Some v" by simp
qed (rule seed_sound)

lemma dom_seed: "dom (DAList.lookup (seedAddressMap addrs)) = Type ` set addrs"
  by (simp add: lookup_seedAddressMap dom_map_of_conv_image_fst image_image rev_map [symmetric])

lemma filter_type_singleton:
  "distinct (map Type xs) \<Longrightarrow> x \<in> set xs \<Longrightarrow> filter (\<lambda>a. Type a = Type x) xs = [x]"
proof (induction xs)
  case Nil
  then show ?case by simp
next
  case (Cons y ys)
  show ?case
  proof (cases "x = y")
    case True
    from Cons.prems have "Type y \<notin> Type ` set ys" by simp
    then have "\<forall>a\<in>set ys. Type a \<noteq> Type y" by (metis imageI)
    with True have "filter (\<lambda>a. Type a = Type x) ys = []"
      by (simp add: filter_empty_conv)
    with True show ?thesis by simp
  next
    case False
    with Cons.prems have "x \<in> set ys" "Type y \<noteq> Type x" by auto
    with Cons show ?thesis by simp
  qed
qed

lemma addressesEqual_slice:
  "addressesEqual a (mapToSlice ord M) \<longleftrightarrow>
     length a = card (dom (DAList.lookup M)) \<and>
     (\<forall>k v. DAList.lookup (seedAddressMap a) k = Some v \<longrightarrow>
        (case DAList.lookup M k of None \<Rightarrow> [] | Some x \<Rightarrow> x) = v)"
  by (simp add: addressesEqual_iff length_mapToSlice length_impl_of index_def lookup_seed_mapToSlice)

lemma addressesEqual_slice_cong:
  "DAList.lookup M = DAList.lookup M' \<Longrightarrow>
   addressesEqual a (mapToSlice ord M) = addressesEqual a (mapToSlice ord' M')"
  by (simp add: addressesEqual_slice)

lemma addressesEqual_slice_self:
  "DAList.lookup M' = DAList.lookup M \<Longrightarrow>
   addressesEqual (mapToSlice ord M) (mapToSlice ord' M')"
  by (simp add: addressesEqual_slice length_mapToSlice length_impl_of lookup_seed_mapToSlice)

lemma detectInternal_again:
  assumes "detectInternal cfg h m = Inr m'" and "detectInternal cfg h n = Inr n'"
    and "DAList.lookup n = DAList.lookup (applyExternalIP E m')"
  shows "DAList.lookup (applyExternalIP E n') = DAList.lookup (applyExternalIP E m')"
proof -
  let ?M = "DAList.lookup (applyExternalIP E m')"
  have "DAList.lookup n' = ?M"
  proof (cases "internalIPTarget cfg = []")
    case True
    with assms show ?thesis by (simp add: lookup_detectInternal)
  next
    case False
    with assms(1) obtain ip where ip: "DetectIP h (internalIPTarget cfg) = Inr ip"
      by (cases "DetectIP h (internalIPTarget cfg)") (auto simp: detectInternal_def)
    with False assms(1) have "DAList.lookup m' NodeInternalIP = Some ip"
      by (simp add: lookup_detectInternal)
    then have "?M NodeInternalIP = Some ip" by (simp add: lookup_applyExternalIP)
    then have "?M(NodeInternalIP \<mapsto> ip) = ?M" by (rule map_upd_triv)
    with False ip assms(2,3) show ?thesis by (simp add: lookup_detectInternal)
  qed
  then show ?thesis by (simp add: lookup_applyExternalIP [of E n'] lookup_applyExternalIP [of E m'] fun_eq_iff)
qed

lemma stable_addresses:
  assumes m: "detectInternal cfg h (seedAddressMap A0) = Inr m"
    and A1: "A1 = (if addressesEqual A0 (mapToSlice ord1 (applyExternalIP E m)) then A0
                   else mapToSlice ord1 (applyExternalIP E m))"
    and m2: "detectInternal cfg h (seedAddressMap A1) = Inr m2"
  shows "addressesEqual A1 (mapToSlice ord2 (applyExternalIP E m2))"
proof (cases "addressesEqual A0 (mapToSlice ord1 (applyExternalIP E m))")
  case True
  with A1 m m2 have "m2 = m" by simp
  with True A1 show ?thesis
    using addressesEqual_slice_cong [of "applyExternalIP E m" "applyExternalIP E m" A0 ord1 ord2] by simp
next
  case False
  with A1 have a: "A1 = mapToSlice ord1 (applyExternalIP E m)" by simp
  have "DAList.lookup (seedAddressMap A1) = DAList.lookup (applyExternalIP E m)"
    by (simp add: a lookup_seed_mapToSlice)
  from detectInternal_again [OF m m2 this]
  show ?thesis unfolding a by (rule addressesEqual_slice_self)
qed

lemma reconcile_paths:
  "(isl (fst (reconcile cfg h ord u w)) \<and>
      nodes (snd (reconcile cfg h ord u w)) = nodes w \<and>
      calls (snd (reconcile cfg h ord u w)) = calls w @ [Get (nodeName u)])
   \<or> (\<exists>node m E. fst (Nodes_Get (nodeName u) w) = Inr node \<and>
         detectInternal cfg h (seedAddressMap (Addresses (Status node))) = Inr m \<and>
         DetectIP h (externalIPTarget cfg) = Inr E)"
proof (cases "fst (Nodes_Get (nodeName u) w)")
  case (Inl e)
  then show ?thesis using reconcile_early [of u w cfg h ord] by simp
next
  case (Inr node)
  show ?thesis
  proof (cases "isl (detectInternal cfg h (seedAddressMap (Addresses (Status node)))) \<or>
               isl (DetectIP h (externalIPTarget cfg))")
    case True
    with Inr show ?thesis using reconcile_early [of u w cfg h ord] by simp
  next
    case False
    then obtain m E where "detectInternal cfg h (seedAddressMap (Addresses (Status node))) = Inr m"
      "DetectIP h (externalIPTarget cfg) = Inr E"
      by (auto simp: isl_def) (metis sum.exhaust)
    with Inr show ?thesis by blast
  qed
qed

lemma reconcile_address_written:
  assumes "Patch nm (ReplaceStatusAddresses addrs) \<in> set (issued w (snd (reconcile cfg h ord u w)))"
  shows "\<exists>node m E. nodes w (nodeName u) = Some node \<and>
           detectInternal cfg h (seedAddressMap (Addresses (Status node))) = Inr m \<and>
           DetectIP h (externalIPTarget cfg) = Inr E \<and>
           addrs = mapToSlice ord (applyExternalIP E m) \<and>
           \<not> addressesEqual (Addresses (Status node)) addrs"
  using reconcile_paths [of cfg h ord u w]
proof (elim disjE exE conjE)
  assume "calls (snd (reconcile cfg h ord u w)) = calls w @ [Get (nodeName u)]"
  with assms show ?thesis by simp
next
  fix node m E
  assume g: "fst (Nodes_Get (nodeName u) w) = Inr node"
    and m: "detectInternal cfg h (seedAddressMap (Addresses (Status node))) = Inr m"
    and E: "DetectIP h (externalIPTarget cfg) = Inr E"
  let ?addrs = "mapToSlice ord (applyExternalIP E m)"
  from reconcile_computed(1) [OF g m E, of ord] obtain rest where
    c: "calls (snd (reconcile cfg h ord u w)) =
           calls w @ Get (nodeName u) #
             (if addressesEqual (Addresses (Status node)) ?addrs then []
              else [Patch (nodeName u) (ReplaceStatusAddresses ?addrs)]) @ rest"
    and r: "list_all (\<lambda>c. \<not> addressWrite c) rest" by blast
  from r have "Patch nm (ReplaceStatusAddresses addrs) \<notin> set rest"
    by (auto simp: list_all_iff)
  with assms c have "\<not> addressesEqual (Addresses (Status node)) ?addrs \<and> addrs = ?addrs"
    by (auto split: if_splits)
  with Nodes_Get_Inr [OF g] m E show ?thesis by blast
qed

lemma reconcile_taints_written:
  assumes "Patch nm (ReplaceSpecTaints ts) \<in> set (issued w (snd (reconcile cfg h ord u w)))"
  shows "\<exists>node. nodes w (nodeName u) = Some node \<and>
           filter (\<lambda>t. Key t \<noteq> TaintKey) ts = filter (\<lambda>t. Key t \<noteq> TaintKey) (Taints (Spec node))"
  using reconcile_paths [of cfg h ord u w]
proof (elim disjE exE conjE)
  assume "calls (snd (reconcile cfg h ord u w)) = calls w @ [Get (nodeName u)]"
  with assms show ?thesis by simp
next
  fix node m E
  assume g: "fst (Nodes_Get (nodeName u) w) = Inr node"
    and m: "detectInternal cfg h (seedAddressMap (Addresses (Status node))) = Inr m"
    and E: "DetectIP h (externalIPTarget cfg) = Inr E"
  let ?addrs = "mapToSlice ord (applyExternalIP E m)"
  from reconcile_computed(1) [OF g m E, of ord] obtain rest where
    c: "calls (snd (reconcile cfg h ord u w)) =
           calls w @ Get (nodeName u) #
             (if addressesEqual (Addresses (Status node)) ?addrs then []
              else [Patch (nodeName u) (ReplaceStatusAddresses ?addrs)]) @ rest"
    and r: "\<forall>nm ts. Patch nm (ReplaceSpecTaints ts) \<in> set rest \<longrightarrow>
              filter (\<lambda>t. Key t \<noteq> TaintKey) ts =
              filter (\<lambda>t. Key t \<noteq> TaintKey) (Taints (Spec node))" by blast
  from assms c have "Patch nm (ReplaceSpecTaints ts) \<in> set rest" by (auto split: if_splits)
  with r Nodes_Get_Inr [OF g] show ?thesis by blast
qed

section \<open>The claims\<close>

subsection \<open>C1: the address comparison\<close>

text \<open>
  C1 says that \<open>addressesEqual\<close> reports two address lists equal exactly when they denote
  the same set of (type, value) pairs. The code compares only the lengths of the two
  slices and then checks that every entry of the map built from the first is repeated in
  the map built from the second; it never checks the other direction, and a key the
  second map lacks reads as the empty string. On a dual-stack node, whose fetched list
  holds two InternalIP entries, the list computed for the external address
  \<open>203.0.113.10\<close> is reported equal to the fetched one although it denotes a different
  set, and the cycle issues no address write: its only requests are its own read and the
  read of the taint removal. The last conjunct is the same slip on lists without
  duplicate types: a Hostname entry with an empty value is found in a list that has no
  Hostname entry.
\<close>

theorem addressesEqual_dual_stack_skips_write:
  "mapToSlice [] (applyExternalIP ''203.0.113.10'' (seedAddressMap dual_stack_addresses))
     = dual_stack_desired
   \<and> addressesEqual dual_stack_addresses dual_stack_desired
   \<and> set dual_stack_addresses \<noteq> set dual_stack_desired
   \<and> issued (cluster_of dual_stack_addresses [])
        (snd (reconcile cfg_external_only host_ex [] updater_ex
               (cluster_of dual_stack_addresses [])))
      = [Get ''node1'', Get ''node1'']
   \<and> addressesEqual [\<lparr>Type = ''Hostname'', Address = []\<rparr>]
        [\<lparr>Type = ''InternalIP'', Address = ''10.0.0.5''\<rparr>]"
proof -
  have "\<lparr>Type = ''ExternalIP'', Address = ''203.0.113.10''\<rparr> \<in> set dual_stack_desired"
    and "\<lparr>Type = ''ExternalIP'', Address = ''203.0.113.10''\<rparr> \<notin> set dual_stack_addresses"
    by (simp_all add: fixture_defs)
  then have "set dual_stack_addresses \<noteq> set dual_stack_desired" by blast
  moreover have "mapToSlice [] (applyExternalIP ''203.0.113.10'' (seedAddressMap dual_stack_addresses))
     = dual_stack_desired"
    by (simp add: eval_defs fixture_defs)
  moreover have "addressesEqual dual_stack_addresses dual_stack_desired"
    by (simp add: eval_defs fixture_defs)
  moreover have "issued (cluster_of dual_stack_addresses [])
        (snd (reconcile cfg_external_only host_ex [] updater_ex
               (cluster_of dual_stack_addresses [])))
      = [Get ''node1'', Get ''node1'']"
    by (simp add: eval_defs fixture_defs)
  moreover have "addressesEqual [\<lparr>Type = ''Hostname'', Address = []\<rparr>]
        [\<lparr>Type = ''InternalIP'', Address = ''10.0.0.5''\<rparr>]"
    by (simp add: eval_defs)
  ultimately show ?thesis by blast
qed

text \<open>
  On lists with at most one entry per type, the first of them without empty values, the
  comparison is the equality of the two sets.
\<close>

lemma addressesEqual_exact:
  assumes da: "distinct (map Type a)" and db: "distinct (map Type b)"
    and ne: "list_all (\<lambda>x. Address x \<noteq> []) a"
  shows "addressesEqual a b \<longleftrightarrow> set a = set b"
proof
  have ca: "card (set a) = length a" using da by (metis distinct_card distinct_map)
  have cb: "card (set b) = length b" using db by (metis distinct_card distinct_map)
  {
    assume eq: "addressesEqual a b"
    then have len: "length a = length b"
      and vals: "\<And>k v. DAList.lookup (seedAddressMap a) k = Some v \<Longrightarrow> index (seedAddressMap b) k = v"
      by (simp_all add: addressesEqual_iff)
    have "set a \<subseteq> set b"
    proof
      fix x assume x: "x \<in> set a"
      have eta: "\<lparr>Type = Type x, Address = Address x\<rparr> = x" by (cases x) simp
      from x have "\<lparr>Type = Type x, Address = Address x\<rparr> \<in> set a" by (simp only: eta)
      then have "DAList.lookup (seedAddressMap a) (Type x) = Some (Address x)"
        by (simp add: seed_distinct [OF da])
      from vals [OF this] have i: "index (seedAddressMap b) (Type x) = Address x" .
      from x ne have "Address x \<noteq> []" by (simp add: list_all_iff)
      with i have "DAList.lookup (seedAddressMap b) (Type x) = Some (Address x)"
        by (auto simp: index_def split: option.splits)
      then have "\<lparr>Type = Type x, Address = Address x\<rparr> \<in> set b" by (rule seed_sound)
      then show "x \<in> set b" by (simp only: eta)
    qed
    moreover have "card (set a) = card (set b)" using ca cb len by simp
    ultimately show "set a = set b" by (simp add: card_subset_eq)
  }
  {
    assume eq: "set a = set b"
    then have "length a = length b" using ca cb by simp
    moreover have "index (seedAddressMap b) k = v"
      if "DAList.lookup (seedAddressMap a) k = Some v" for k v
    proof -
      from that have "\<lparr>Type = k, Address = v\<rparr> \<in> set b"
        using eq by (simp add: seed_distinct [OF da])
      then have "DAList.lookup (seedAddressMap b) k = Some v" by (simp add: seed_distinct [OF db])
      then show ?thesis by (simp add: index_def)
    qed
    ultimately show "addressesEqual a b" by (simp add: addressesEqual_iff)
  }
qed

subsection \<open>C2: fields of other owners\<close>

text \<open>
  C2 says that every update of a reconciliation cycle leaves the fields this program
  does not own as they were: every address entry whose type is neither InternalIP nor
  ExternalIP is in the written address list, and every taint other than the
  \<open>uninitialized\<close> one is in the written taint list, in the original order. The
  code seeds a map keyed by address type from the fetched list, so of several entries of
  one type only the last is written back. Here the fetched list holds
  \<open>Hostname node1\<close> and \<open>Hostname node1.example.com\<close>; the cycle writes an address
  list, and \<open>Hostname node1\<close> is not in it.
\<close>

theorem foreign_entry_dropped:
  "Patch ''node1'' (ReplaceStatusAddresses two_hostnames_written)
     \<in> set (issued (cluster_of two_hostnames [uninitialized, dedicated])
              (snd (reconcile cfg_external_only host_ex [] updater_ex
                     (cluster_of two_hostnames [uninitialized, dedicated]))))
   \<and> \<lparr>Type = ''Hostname'', Address = ''node1''\<rparr> \<in> set two_hostnames
   \<and> \<lparr>Type = ''Hostname'', Address = ''node1''\<rparr> \<notin> set two_hostnames_written"
  by (simp add: eval_defs fixture_defs)

text \<open>
  What a cycle does preserve, for every stored node, configuration, host, order of the
  range and fault schedule: whenever it writes an address list, every fetched entry whose
  type is neither InternalIP nor ExternalIP and that no later entry of the same type
  follows is in the written list, and the written list holds no entry of such a type
  that was not fetched; whenever it writes a taint list, the taints whose key is not
  \<open>node.cloudprovider.kubernetes.io/uninitialized\<close> are those of the node, in their
  original order. The taint half of C2 therefore holds as stated.
\<close>

theorem foreign_fields_preserved:
  assumes "nodes w (nodeName u) = Some node"
  shows "(Patch nm (ReplaceStatusAddresses addrs) \<in> set (issued w (snd (reconcile cfg h ord u w))) \<longrightarrow>
            (\<forall>pre a post. Addresses (Status node) = pre @ a # post \<and>
                list_all (\<lambda>b. Type b \<noteq> Type a) post \<and>
                Type a \<noteq> NodeInternalIP \<and> Type a \<noteq> NodeExternalIP \<longrightarrow> a \<in> set addrs) \<and>
            (\<forall>b. b \<in> set addrs \<and> Type b \<noteq> NodeInternalIP \<and> Type b \<noteq> NodeExternalIP \<longrightarrow>
                b \<in> set (Addresses (Status node))))
       \<and> (Patch nm (ReplaceSpecTaints ts) \<in> set (issued w (snd (reconcile cfg h ord u w))) \<longrightarrow>
            filter (\<lambda>t. Key t \<noteq> TaintKey) ts =
            filter (\<lambda>t. Key t \<noteq> TaintKey) (Taints (Spec node)))"
proof (intro conjI impI allI)
  assume "Patch nm (ReplaceSpecTaints ts) \<in> set (issued w (snd (reconcile cfg h ord u w)))"
  from reconcile_taints_written [OF this] assms
  show "filter (\<lambda>t. Key t \<noteq> TaintKey) ts = filter (\<lambda>t. Key t \<noteq> TaintKey) (Taints (Spec node))"
    by simp
next
  fix pre a post
  assume p: "Patch nm (ReplaceStatusAddresses addrs) \<in> set (issued w (snd (reconcile cfg h ord u w)))"
    and a: "Addresses (Status node) = pre @ a # post \<and>
            list_all (\<lambda>b. Type b \<noteq> Type a) post \<and>
            Type a \<noteq> NodeInternalIP \<and> Type a \<noteq> NodeExternalIP"
  from reconcile_address_written [OF p] assms obtain m E where
    m: "detectInternal cfg h (seedAddressMap (Addresses (Status node))) = Inr m"
    and addrs: "addrs = mapToSlice ord (applyExternalIP E m)" by auto
  from a have "DAList.lookup (seedAddressMap (Addresses (Status node))) (Type a) = Some (Address a)"
    using seed_last [of "Addresses (Status node)" pre a post] by simp
  with a m have "DAList.lookup m (Type a) = Some (Address a)"
    by (simp add: lookup_detectInternal split: sum.splits)
  with a show "a \<in> set addrs" by (simp add: addrs in_mapToSlice lookup_applyExternalIP)
next
  fix b
  assume p: "Patch nm (ReplaceStatusAddresses addrs) \<in> set (issued w (snd (reconcile cfg h ord u w)))"
    and b: "b \<in> set addrs \<and> Type b \<noteq> NodeInternalIP \<and> Type b \<noteq> NodeExternalIP"
  from reconcile_address_written [OF p] assms obtain m E where
    m: "detectInternal cfg h (seedAddressMap (Addresses (Status node))) = Inr m"
    and addrs: "addrs = mapToSlice ord (applyExternalIP E m)" by auto
  from b have "DAList.lookup m (Type b) = Some (Address b)"
    by (simp add: addrs in_mapToSlice lookup_applyExternalIP split: if_splits)
  with b m have "DAList.lookup (seedAddressMap (Addresses (Status node))) (Type b) = Some (Address b)"
    by (simp add: lookup_detectInternal split: sum.splits if_splits)
  from seed_sound [OF this] show "b \<in> set (Addresses (Status node))" by (cases b) simp
qed

text \<open>
  At a node with two Hostname entries and two taints: the later Hostname entry is
  written back, and the written taint list keeps the \<open>dedicated\<close> taint.
\<close>

theorem foreign_fields_preserved_witness:
  "nodes (cluster_of two_hostnames [uninitialized, dedicated]) (nodeName updater_ex)
     = Some (node_of two_hostnames [uninitialized, dedicated])
   \<and> Patch ''node1'' (ReplaceStatusAddresses two_hostnames_written)
       \<in> set (issued (cluster_of two_hostnames [uninitialized, dedicated])
                (snd (reconcile cfg_external_only host_ex [] updater_ex
                       (cluster_of two_hostnames [uninitialized, dedicated]))))
   \<and> Patch ''node1'' (ReplaceSpecTaints [dedicated])
       \<in> set (issued (cluster_of two_hostnames [uninitialized, dedicated])
                (snd (reconcile cfg_external_only host_ex [] updater_ex
                       (cluster_of two_hostnames [uninitialized, dedicated]))))
   \<and> \<lparr>Type = ''Hostname'', Address = ''node1.example.com''\<rparr> \<in> set two_hostnames_written
   \<and> filter (\<lambda>t. Key t \<noteq> TaintKey) [dedicated]
       = filter (\<lambda>t. Key t \<noteq> TaintKey) [uninitialized, dedicated]"
proof -
  let ?w = "cluster_of two_hostnames [uninitialized, dedicated]"
  let ?w' = "snd (reconcile cfg_external_only host_ex [] updater_ex ?w)"
  let ?node = "node_of two_hostnames [uninitialized, dedicated]"
  let ?a = "\<lparr>Type = ''Hostname'', Address = ''node1.example.com''\<rparr>"
  have n: "nodes ?w (nodeName updater_ex) = Some ?node"
    by (simp add: fixture_defs)
  have pa: "Patch ''node1'' (ReplaceStatusAddresses two_hostnames_written) \<in> set (issued ?w ?w')"
    by (simp add: eval_defs fixture_defs)
  have pt: "Patch ''node1'' (ReplaceSpecTaints [dedicated]) \<in> set (issued ?w ?w')"
    by (simp add: eval_defs fixture_defs)
  have later: "Addresses (Status ?node) =
                 [\<lparr>Type = ''Hostname'', Address = ''node1''\<rparr>] @ ?a #
                 [\<lparr>Type = ''ExternalIP'', Address = ''198.51.100.7''\<rparr>]
               \<and> list_all (\<lambda>b. Type b \<noteq> Type ?a) [\<lparr>Type = ''ExternalIP'', Address = ''198.51.100.7''\<rparr>]
               \<and> Type ?a \<noteq> NodeInternalIP \<and> Type ?a \<noteq> NodeExternalIP"
    by (simp add: fixture_defs NodeInternalIP_def NodeExternalIP_def)
  note inst = foreign_fields_preserved [OF n, of "''node1''" two_hostnames_written
      cfg_external_only host_ex "[]" "[dedicated]"]
  from inst pa later have a: "?a \<in> set two_hostnames_written" by blast
  from inst pt have t: "filter (\<lambda>t. Key t \<noteq> TaintKey) [dedicated]
       = filter (\<lambda>t. Key t \<noteq> TaintKey) [uninitialized, dedicated]"
    by (simp add: node_of_def)
  from n pa pt a t show ?thesis by simp
qed

subsection \<open>C3: the collision rule\<close>

text \<open>
  C3: for every address map and every detected external IP \<open>E\<close>, if the map's InternalIP
  entry exists and equals \<open>E\<close>, the computed map and the computed address list (in any
  order of the range) have no ExternalIP entry, and the InternalIP entry is in the list;
  otherwise the computed map's ExternalIP entry is \<open>E\<close> and it is the only ExternalIP
  entry of the list. No other entry of the map changes.
\<close>

theorem collision_rule:
  "(DAList.lookup m NodeInternalIP = Some E \<longrightarrow>
      DAList.lookup (applyExternalIP E m) NodeExternalIP = None \<and>
      list_all (\<lambda>a. Type a \<noteq> NodeExternalIP) (mapToSlice ord (applyExternalIP E m)) \<and>
      \<lparr>Type = NodeInternalIP, Address = E\<rparr> \<in> set (mapToSlice ord (applyExternalIP E m)))
   \<and> (DAList.lookup m NodeInternalIP \<noteq> Some E \<longrightarrow>
      DAList.lookup (applyExternalIP E m) NodeExternalIP = Some E \<and>
      filter (\<lambda>a. Type a = NodeExternalIP) (mapToSlice ord (applyExternalIP E m)) =
        [\<lparr>Type = NodeExternalIP, Address = E\<rparr>])
   \<and> (\<forall>k. k \<noteq> NodeExternalIP \<longrightarrow>
        DAList.lookup (applyExternalIP E m) k = DAList.lookup m k)"
proof -
  let ?M = "applyExternalIP E m"
  have same: "DAList.lookup m NodeInternalIP = Some E \<Longrightarrow>
      DAList.lookup ?M NodeExternalIP = None \<and>
      list_all (\<lambda>a. Type a \<noteq> NodeExternalIP) (mapToSlice ord ?M) \<and>
      \<lparr>Type = NodeInternalIP, Address = E\<rparr> \<in> set (mapToSlice ord ?M)"
    by (auto simp: lookup_applyExternalIP list_all_iff in_mapToSlice)
  have diff: "DAList.lookup ?M NodeExternalIP = Some E \<and>
      filter (\<lambda>a. Type a = NodeExternalIP) (mapToSlice ord ?M) = [\<lparr>Type = NodeExternalIP, Address = E\<rparr>]"
    if "DAList.lookup m NodeInternalIP \<noteq> Some E"
  proof -
    from that have l: "DAList.lookup ?M NodeExternalIP = Some E" by (simp add: lookup_applyExternalIP)
    then have "\<lparr>Type = NodeExternalIP, Address = E\<rparr> \<in> set (mapToSlice ord ?M)"
      by (simp add: in_mapToSlice)
    from filter_type_singleton [OF distinct_mapToSlice this] l show ?thesis by simp
  qed
  have other: "k \<noteq> NodeExternalIP \<Longrightarrow> DAList.lookup ?M k = DAList.lookup m k" for k
    by (simp add: lookup_applyExternalIP)
  from same diff other show ?thesis by blast
qed

text \<open>
  C3 at the spec's example: the internal and the external target both resolve to
  \<open>10.0.0.5\<close>, on a node that already had an ExternalIP entry. The computed list holds
  InternalIP \<open>10.0.0.5\<close> and no ExternalIP entry. With the external target resolving to
  \<open>203.0.113.10\<close> instead, the ExternalIP entry is \<open>203.0.113.10\<close>.
\<close>

theorem collision_rule_witness:
  "DetectIP host_ex (internalIPTarget cfg_same_target) = Inr ''10.0.0.5''
   \<and> DetectIP host_ex (externalIPTarget cfg_same_target) = Inr ''10.0.0.5''
   \<and> detectInternal cfg_same_target host_ex (seedAddressMap two_hostnames)
       = Inr (DAList.update NodeInternalIP ''10.0.0.5'' (seedAddressMap two_hostnames))
   \<and> DAList.lookup (DAList.update NodeInternalIP ''10.0.0.5'' (seedAddressMap two_hostnames))
        NodeInternalIP = Some ''10.0.0.5''
   \<and> list_all (\<lambda>a. Type a \<noteq> NodeExternalIP)
        (mapToSlice [] (applyExternalIP ''10.0.0.5''
           (DAList.update NodeInternalIP ''10.0.0.5'' (seedAddressMap two_hostnames))))
   \<and> \<lparr>Type = NodeInternalIP, Address = ''10.0.0.5''\<rparr>
        \<in> set (mapToSlice [] (applyExternalIP ''10.0.0.5''
                  (DAList.update NodeInternalIP ''10.0.0.5'' (seedAddressMap two_hostnames))))
   \<and> DAList.lookup (DAList.update NodeInternalIP ''10.0.0.5'' (seedAddressMap two_hostnames))
        NodeInternalIP \<noteq> Some ''203.0.113.10''
   \<and> filter (\<lambda>a. Type a = NodeExternalIP)
        (mapToSlice [] (applyExternalIP ''203.0.113.10''
           (DAList.update NodeInternalIP ''10.0.0.5'' (seedAddressMap two_hostnames))))
      = [\<lparr>Type = NodeExternalIP, Address = ''203.0.113.10''\<rparr>]"
proof -
  let ?m = "DAList.update NodeInternalIP ''10.0.0.5'' (seedAddressMap two_hostnames)"
  have d: "DetectIP host_ex (internalIPTarget cfg_same_target) = Inr ''10.0.0.5''"
    "DetectIP host_ex (externalIPTarget cfg_same_target) = Inr ''10.0.0.5''"
    by (simp_all add: DetectIP_def fixture_defs)
  have di: "detectInternal cfg_same_target host_ex (seedAddressMap two_hostnames) = Inr ?m"
    using d(1) by (simp add: detectInternal_def cfg_same_target_def)
  have h1: "DAList.lookup ?m NodeInternalIP = Some ''10.0.0.5''" by simp
  have h2: "DAList.lookup ?m NodeInternalIP \<noteq> Some ''203.0.113.10''" by simp
  from collision_rule [of ?m "''10.0.0.5''" "[]"] collision_rule [of ?m "''203.0.113.10''" "[]"]
    d di h1 h2
  show ?thesis by simp
qed

subsection \<open>C4: idempotence\<close>

text \<open>
  C4: for every cluster state, configuration, host and orders of the two ranges, if one
  reconciliation cycle completes, then a second cycle run on the state the first one
  left, against the same host, issues no address write, whatever its own outcome. The
  first cycle may have written its computed address list or found it equal to the
  fetched one; the second cycle finds no difference in either case.
\<close>

theorem reconcile_idempotent:
  assumes "reconcile cfg h ord1 u w = (Inr (), w1)"
  shows "list_all (\<lambda>c. \<not> addressWrite c) (issued w1 (snd (reconcile cfg h ord2 u w1)))"
proof -
  from assms have ok: "fst (reconcile cfg h ord1 u w) = Inr ()"
    and w1: "snd (reconcile cfg h ord1 u w) = w1"
    by simp_all
  from reconcile_paths [of cfg h ord1 u w] ok obtain node m E where
    g: "fst (Nodes_Get (nodeName u) w) = Inr node"
    and m: "detectInternal cfg h (seedAddressMap (Addresses (Status node))) = Inr m"
    and E: "DetectIP h (externalIPTarget cfg) = Inr E" by auto
  let ?A0 = "Addresses (Status node)"
  let ?addrs = "mapToSlice ord1 (applyExternalIP E m)"
  let ?A1 = "if addressesEqual ?A0 ?addrs then ?A0 else ?addrs"
  from reconcile_computed(2) [OF g m E ok] w1
  have a1: "addressesOf w1 (nodeName u) = Some ?A1" by simp
  from reconcile_paths [of cfg h ord2 u w1] show ?thesis
  proof (elim disjE exE conjE)
    assume "calls (snd (reconcile cfg h ord2 u w1)) = calls w1 @ [Get (nodeName u)]"
    then show ?thesis by simp
  next
    fix node1 m2 E2
    assume g2: "fst (Nodes_Get (nodeName u) w1) = Inr node1"
      and m2: "detectInternal cfg h (seedAddressMap (Addresses (Status node1))) = Inr m2"
      and E2: "DetectIP h (externalIPTarget cfg) = Inr E2"
    from E E2 have e: "E2 = E" by simp
    from Nodes_Get_Inr [OF g2] a1 have n1: "Addresses (Status node1) = ?A1"
      by (simp add: addressesOf_def)
    have "addressesEqual ?A1 (mapToSlice ord2 (applyExternalIP E m2))"
      using m2 by (intro stable_addresses [OF m refl]) (simp only: n1)
    then have same: "addressesEqual (Addresses (Status node1)) (mapToSlice ord2 (applyExternalIP E2 m2))"
      by (simp only: n1 e)
    from reconcile_computed(1) [OF g2 m2 E2, of ord2] same obtain rest where
      "calls (snd (reconcile cfg h ord2 u w1)) = calls w1 @ Get (nodeName u) # rest"
      "list_all (\<lambda>c. \<not> addressWrite c) rest" by auto
    then show ?thesis by simp
  qed
qed

text \<open>
  C4 at the spec's end-to-end scenario extended by an InternalIP entry: the first cycle
  completes and writes the address list with the new ExternalIP entry; the second cycle,
  ranging over its map in another order, writes no addresses.
\<close>

theorem reconcile_idempotent_witness:
  "fst (reconcile cfg_external_only host_ex [] updater_ex
          (cluster_of kubelet_addresses [uninitialized])) = Inr ()
   \<and> list_all (\<lambda>c. \<not> addressWrite c)
        (issued (snd (reconcile cfg_external_only host_ex [] updater_ex
                        (cluster_of kubelet_addresses [uninitialized])))
           (snd (reconcile cfg_external_only host_ex [1, 1] updater_ex
                   (snd (reconcile cfg_external_only host_ex [] updater_ex
                           (cluster_of kubelet_addresses [uninitialized]))))))"
proof -
  let ?w = "cluster_of kubelet_addresses [uninitialized]"
  let ?r = "reconcile cfg_external_only host_ex [] updater_ex ?w"
  have f: "fst ?r = Inr ()" by (simp add: eval_defs fixture_defs)
  then have h: "?r = (Inr (), snd ?r)" by (cases ?r) simp
  from reconcile_idempotent [OF h, of "[1, 1]"] f show ?thesis by simp
qed

subsection \<open>C5: failure of the external route resolution\<close>

text \<open>
  C5: if route resolution fails for the external target, the cycle returns an error, the
  stored nodes are exactly as before, and the only request the cycle has issued is its
  initial read of the node: no address patch, and no request of the taint removal, whose
  first action would be a second read.
\<close>

theorem reconcile_external_failure:
  assumes "DetectIP h (externalIPTarget cfg) = Inl e"
  shows "isl (fst (reconcile cfg h ord u w))
       \<and> nodes (snd (reconcile cfg h ord u w)) = nodes w
       \<and> issued w (snd (reconcile cfg h ord u w)) = [Get (nodeName u)]"
proof -
  obtain r w1 where g: "Nodes_Get (nodeName u) w = (r, w1)" by (cases "Nodes_Get (nodeName u) w")
  from Nodes_Get_effect [of "nodeName u" w] g
  have w1: "nodes w1 = nodes w" "calls w1 = calls w @ [Get (nodeName u)]" by simp_all
  show ?thesis using g w1 assms
    by (simp add: reconcile_def GetNode_def split: sum.splits)
qed

text \<open>C5 at a host with no route to the external target \<open>192.0.2.1\<close>.\<close>

theorem reconcile_external_failure_witness:
  "DetectIP host_ex (externalIPTarget cfg_unroutable) = Inl (FailedToGetRoute ''192.0.2.1'' (Errno 101))
   \<and> isl (fst (reconcile cfg_unroutable host_ex [] updater_ex
                 (cluster_of kubelet_addresses [uninitialized])))
   \<and> nodes (snd (reconcile cfg_unroutable host_ex [] updater_ex
                   (cluster_of kubelet_addresses [uninitialized])))
       = nodes (cluster_of kubelet_addresses [uninitialized])
   \<and> issued (cluster_of kubelet_addresses [uninitialized])
        (snd (reconcile cfg_unroutable host_ex [] updater_ex
                (cluster_of kubelet_addresses [uninitialized])))
       = [Get (nodeName updater_ex)]"
proof -
  have h: "DetectIP host_ex (externalIPTarget cfg_unroutable)
             = Inl (FailedToGetRoute ''192.0.2.1'' (Errno 101))"
    by (simp add: DetectIP_def fixture_defs)
  from reconcile_external_failure [OF h, of "[]" updater_ex "cluster_of kubelet_addresses [uninitialized]"] h
  show ?thesis by simp
qed

subsection \<open>C6: internal detection disabled\<close>

text \<open>
  C6 says that with the internal target unset a cycle never overwrites or removes an
  existing InternalIP entry. The code seeds a map keyed by address type, so of several
  InternalIP entries only the last survives a write. Here the node holds the InternalIP
  entries \<open>192.168.1.1\<close> and \<open>fd00::1\<close> (a dual-stack node) and a stale ExternalIP;
  the external target resolves to \<open>203.0.113.10\<close>; the cycle succeeds, and the node
  then holds no InternalIP entry \<open>192.168.1.1\<close>.
\<close>

theorem internal_address_dropped:
  "internalIPTarget cfg_external_only = []
   \<and> \<lparr>Type = ''InternalIP'', Address = ''192.168.1.1''\<rparr> \<in> set two_internal
   \<and> fst (reconcile cfg_external_only host_ex [] updater_ex (cluster_of two_internal [])) = Inr ()
   \<and> addressesOf (snd (reconcile cfg_external_only host_ex [] updater_ex
                          (cluster_of two_internal []))) ''node1''
       = Some two_internal_written
   \<and> \<lparr>Type = ''InternalIP'', Address = ''192.168.1.1''\<rparr> \<notin> set two_internal_written"
  by (simp add: eval_defs fixture_defs)

text \<open>
  What the code does guarantee: when the internal target is unset and the fetched
  address list has at most one entry per address type, a cycle that completes leaves the
  InternalIP entries of the node exactly as they were (none overwritten, removed or
  added), and if the external target resolves to \<open>E\<close> and the node's InternalIP entry
  is not \<open>E\<close>, the node then holds ExternalIP \<open>E\<close>.
\<close>

theorem internal_address_kept:
  assumes off: "internalIPTarget cfg = []"
    and node: "nodes w (nodeName u) = Some node"
    and dist: "distinct (map Type (Addresses (Status node)))"
    and run: "reconcile cfg h ord u w = (Inr (), w')"
  shows "\<exists>E post. DetectIP h (externalIPTarget cfg) = Inr E \<and>
           addressesOf w' (nodeName u) = Some post \<and>
           (\<forall>a. Type a = NodeInternalIP \<longrightarrow>
                (a \<in> set post \<longleftrightarrow> a \<in> set (Addresses (Status node)))) \<and>
           (\<lparr>Type = NodeInternalIP, Address = E\<rparr> \<notin> set (Addresses (Status node)) \<longrightarrow>
              \<lparr>Type = NodeExternalIP, Address = E\<rparr> \<in> set post)"
proof -
  let ?A0 = "Addresses (Status node)"
  let ?L0 = "DAList.lookup (seedAddressMap ?A0)"
  from run have ok: "fst (reconcile cfg h ord u w) = Inr ()"
    and w': "snd (reconcile cfg h ord u w) = w'"
    by simp_all
  from reconcile_paths [of cfg h ord u w] ok obtain node' m E where
    g: "fst (Nodes_Get (nodeName u) w) = Inr node'"
    and m: "detectInternal cfg h (seedAddressMap (Addresses (Status node'))) = Inr m"
    and E: "DetectIP h (externalIPTarget cfg) = Inr E" by auto
  from Nodes_Get_Inr [OF g] node have nn: "node' = node" by simp
  from m off nn have m0: "m = seedAddressMap ?A0" by (simp add: detectInternal_def)
  let ?M = "applyExternalIP E m"
  let ?addrs = "mapToSlice ord ?M"
  let ?post = "if addressesEqual ?A0 ?addrs then ?A0 else ?addrs"
  from reconcile_computed(2) [OF g m E ok] w' nn
  have post: "addressesOf w' (nodeName u) = Some ?post" by simp
  have L0: "?L0 k = Some v \<longleftrightarrow> \<lparr>Type = k, Address = v\<rparr> \<in> set ?A0" for k v
    by (rule seed_distinct [OF dist])
  have in_addrs: "a \<in> set ?addrs \<longleftrightarrow> a \<in> set ?A0" if "Type a = NodeInternalIP" for a
  proof -
    have "a \<in> set ?addrs \<longleftrightarrow> ?L0 (Type a) = Some (Address a)"
      using that by (simp add: in_mapToSlice lookup_applyExternalIP m0)
    also have "\<dots> \<longleftrightarrow> a \<in> set ?A0" by (cases a) (simp add: L0)
    finally show ?thesis .
  qed
  have ext: "\<lparr>Type = NodeExternalIP, Address = E\<rparr> \<in> set ?post"
    if no: "\<lparr>Type = NodeInternalIP, Address = E\<rparr> \<notin> set ?A0"
  proof -
    from no have ne: "?L0 NodeInternalIP \<noteq> Some E" by (simp add: L0)
    then have LM: "DAList.lookup ?M = ?L0(NodeExternalIP \<mapsto> E)"
      by (simp add: lookup_applyExternalIP m0)
    show ?thesis
    proof (cases "addressesEqual ?A0 ?addrs")
      case False
      then show ?thesis by (simp add: in_mapToSlice LM)
    next
      case True
      then have len: "length ?A0 = card (dom (DAList.lookup ?M))"
        and vals: "\<And>k v. ?L0 k = Some v \<Longrightarrow>
                     (case DAList.lookup ?M k of None \<Rightarrow> [] | Some x \<Rightarrow> x) = v"
        by (simp_all add: addressesEqual_slice)
      have "card (set (map Type ?A0)) = length (map Type ?A0)"
        using dist by (rule distinct_card)
      then have "length ?A0 = card (dom ?L0)"
        by (simp add: dom_seed)
      with len LM have "card (insert NodeExternalIP (dom ?L0)) = card (dom ?L0)" by simp
      moreover have "finite (dom ?L0)" by (simp add: dom_seed)
      ultimately have "NodeExternalIP \<in> dom ?L0" by (metis card_insert_disjoint n_not_Suc_n)
      then obtain v where v: "?L0 NodeExternalIP = Some v" by blast
      from vals [OF v] LM have "v = E" by simp
      with v have "\<lparr>Type = NodeExternalIP, Address = E\<rparr> \<in> set ?A0" by (simp add: L0)
      with True show ?thesis by simp
    qed
  qed
  have "\<forall>a. Type a = NodeInternalIP \<longrightarrow> (a \<in> set ?post \<longleftrightarrow> a \<in> set ?A0)"
    using in_addrs by simp
  with E post ext show ?thesis by blast
qed

text \<open>
  At the spec's example of C6: the node holds InternalIP \<open>192.168.1.1\<close>, the
  internal target is unset and the external target resolves to \<open>203.0.113.10\<close>; after
  the cycle the node holds InternalIP \<open>192.168.1.1\<close> and ExternalIP \<open>203.0.113.10\<close>.
\<close>

theorem internal_address_kept_witness:
  "internalIPTarget cfg_external_only = []
   \<and> nodes (cluster_of kubelet_addresses [uninitialized]) (nodeName updater_ex)
       = Some (node_of kubelet_addresses [uninitialized])
   \<and> distinct (map Type (Addresses (Status (node_of kubelet_addresses [uninitialized]))))
   \<and> fst (reconcile cfg_external_only host_ex [] updater_ex
             (cluster_of kubelet_addresses [uninitialized])) = Inr ()
   \<and> (\<exists>post. addressesOf (snd (reconcile cfg_external_only host_ex [] updater_ex
                                  (cluster_of kubelet_addresses [uninitialized])))
                (nodeName updater_ex) = Some post
         \<and> \<lparr>Type = NodeInternalIP, Address = ''192.168.1.1''\<rparr> \<in> set post
         \<and> \<lparr>Type = NodeExternalIP, Address = ''203.0.113.10''\<rparr> \<in> set post)"
proof -
  let ?w = "cluster_of kubelet_addresses [uninitialized]"
  let ?node = "node_of kubelet_addresses [uninitialized]"
  let ?r = "reconcile cfg_external_only host_ex [] updater_ex ?w"
  have off: "internalIPTarget cfg_external_only = []" by (simp add: cfg_external_only_def)
  have n: "nodes ?w (nodeName updater_ex) = Some ?node" by (simp add: fixture_defs)
  have d: "distinct (map Type (Addresses (Status ?node)))" by (simp add: fixture_defs)
  have f: "fst ?r = Inr ()" by (simp add: eval_defs fixture_defs)
  then have run: "?r = (Inr (), snd ?r)" by (cases ?r) simp
  have E: "DetectIP host_ex (externalIPTarget cfg_external_only) = Inr ''203.0.113.10''"
    by (simp add: DetectIP_def fixture_defs)
  have i: "\<lparr>Type = NodeInternalIP, Address = ''192.168.1.1''\<rparr> \<in> set (Addresses (Status ?node))"
    and e: "\<lparr>Type = NodeInternalIP, Address = ''203.0.113.10''\<rparr> \<notin> set (Addresses (Status ?node))"
    by (simp_all add: fixture_defs NodeInternalIP_def)
  from internal_address_kept [OF off n d run] E obtain post where
    p: "addressesOf (snd ?r) (nodeName updater_ex) = Some post"
    and keep: "\<forall>a. Type a = NodeInternalIP \<longrightarrow> (a \<in> set post \<longleftrightarrow> a \<in> set (Addresses (Status ?node)))"
    and ext: "\<lparr>Type = NodeInternalIP, Address = ''203.0.113.10''\<rparr> \<notin> set (Addresses (Status ?node)) \<longrightarrow>
              \<lparr>Type = NodeExternalIP, Address = ''203.0.113.10''\<rparr> \<in> set post"
    by auto
  from keep i have "\<lparr>Type = NodeInternalIP, Address = ''192.168.1.1''\<rparr> \<in> set post" by simp
  moreover from ext e have "\<lparr>Type = NodeExternalIP, Address = ''203.0.113.10''\<rparr> \<in> set post" by simp
  ultimately show ?thesis using off n d f p by blast
qed

subsection \<open>C7: removing a taint that is absent\<close>

text \<open>
  C7: for every cluster state in which the node carries no taint with the key
  \<open>node.cloudprovider.kubernetes.io/uninitialized\<close>, the taint removal issues its read
  of the node and nothing else (no patch), leaves the stored nodes as they are, and,
  its read having returned the node, returns success.
\<close>

theorem RemoveTaint_absent:
  assumes "nodes w (nodeName u) = Some node"
    and "list_all (\<lambda>t. Key t \<noteq> TaintKey) (Taints (Spec node))"
  shows "issued w (snd (RemoveTaint u w)) = [Get (nodeName u)]
       \<and> nodes (snd (RemoveTaint u w)) = nodes w
       \<and> (fst (Nodes_Get (nodeName u) w) = Inr node \<longrightarrow> fst (RemoveTaint u w) = Inr ())"
proof -
  obtain r w1 where g: "Nodes_Get (nodeName u) w = (r, w1)" by (cases "Nodes_Get (nodeName u) w")
  from Nodes_Get_effect [of "nodeName u" w] g
  have w1: "nodes w1 = nodes w" "calls w1 = calls w @ [Get (nodeName u)]" by simp_all
  show ?thesis
  proof (cases r)
    case (Inl e)
    with g w1 show ?thesis by (simp add: RemoveTaint_def)
  next
    case (Inr n)
    with g have "nodes w (nodeName u) = Some n" using Nodes_Get_Inr [of "nodeName u" w n] by simp
    with assms have "n = node" by simp
    with Inr g w1 assms(2) show ?thesis
      by (simp add: RemoveTaint_def taintIndex_of_def taintIndex_from_absent)
  qed
qed

text \<open>C7 at a node whose only taint is \<open>dedicated\<close>.\<close>

theorem RemoveTaint_absent_witness:
  "nodes (cluster_of kubelet_addresses [dedicated]) (nodeName updater_ex)
     = Some (node_of kubelet_addresses [dedicated])
   \<and> list_all (\<lambda>t. Key t \<noteq> TaintKey) (Taints (Spec (node_of kubelet_addresses [dedicated])))
   \<and> fst (Nodes_Get (nodeName updater_ex) (cluster_of kubelet_addresses [dedicated]))
       = Inr (node_of kubelet_addresses [dedicated])
   \<and> issued (cluster_of kubelet_addresses [dedicated])
        (snd (RemoveTaint updater_ex (cluster_of kubelet_addresses [dedicated])))
       = [Get (nodeName updater_ex)]
   \<and> nodes (snd (RemoveTaint updater_ex (cluster_of kubelet_addresses [dedicated])))
       = nodes (cluster_of kubelet_addresses [dedicated])
   \<and> fst (RemoveTaint updater_ex (cluster_of kubelet_addresses [dedicated])) = Inr ()"
proof -
  let ?w = "cluster_of kubelet_addresses [dedicated]"
  let ?node = "node_of kubelet_addresses [dedicated]"
  have n: "nodes ?w (nodeName updater_ex) = Some ?node" by (simp add: fixture_defs)
  have a: "list_all (\<lambda>t. Key t \<noteq> TaintKey) (Taints (Spec ?node))"
    by (simp add: fixture_defs TaintKey_def)
  have g: "fst (Nodes_Get (nodeName updater_ex) ?w) = Inr ?node"
    by (simp add: Nodes_Get_def request_def fixture_defs)
  from RemoveTaint_absent [OF n a] n a g show ?thesis by simp
qed

subsection \<open>C8: route resolution\<close>

text \<open>
  C8: on a host whose address parser rejects the empty string (as \<open>net.ParseIP\<close> does),
  \<open>DetectIP\<close> returns an error, and so no address, for every input that does not parse
  as an IP address; for an input that parses, it returns an error when no route is
  found (the route query fails or returns no route) and when the first route has no
  source address; in every other case it returns the source address of the first
  route, as a string.
\<close>

theorem DetectIP_outcomes:
  assumes "ParseIP h [] = None"
  shows "(ParseIP h s = None \<longrightarrow> isl (DetectIP h s))
       \<and> (\<forall>ip. ParseIP h s = Some ip \<longrightarrow>
            (isl (RouteGet h ip) \<or> RouteGet h ip = Inr [] \<longrightarrow> isl (DetectIP h s))
          \<and> (\<forall>r rs. RouteGet h ip = Inr (r # rs) \<longrightarrow>
               (Src r = None \<longrightarrow> isl (DetectIP h s))
             \<and> (\<forall>src. Src r = Some src \<longrightarrow> DetectIP h s = Inr (IP_String h src))))"
  using assms by (cases "s = []") (auto simp: DetectIP_def split: option.splits sum.splits)

text \<open>
  C8 at the example host: \<open>8.8.8.8\<close> resolves to \<open>203.0.113.10\<close>, a host name is
  rejected, and a destination without a route is an error.
\<close>

theorem DetectIP_outcomes_witness:
  "ParseIP host_ex [] = None
   \<and> DetectIP host_ex ''8.8.8.8'' = Inr ''203.0.113.10''
   \<and> isl (DetectIP host_ex ''example.org'')
   \<and> isl (DetectIP host_ex ''192.0.2.1'')"
  using DetectIP_outcomes [of host_ex "''8.8.8.8''"]
    DetectIP_outcomes [of host_ex "''example.org''"]
    DetectIP_outcomes [of host_ex "''192.0.2.1''"]
  by (simp add: host_ex_def)

subsection \<open>C9: one entry per address type\<close>

text \<open>
  C9: for every cluster state (also one whose node has several address entries of one
  type), configuration, host, order of the range and fault schedule, every address list
  that a reconciliation cycle passes to the address update has at most one entry per
  address type; and in the map seeded from the fetched list, an entry that no later
  entry of the same type follows is the value of its type.
\<close>

theorem written_addresses_one_per_type:
  assumes "Patch nm (ReplaceStatusAddresses addrs) \<in> set (issued w (snd (reconcile cfg h ord u w)))"
  shows "distinct (map Type addrs)
       \<and> (\<forall>fetched pre a post. fetched = pre @ a # post \<and> list_all (\<lambda>b. Type b \<noteq> Type a) post \<longrightarrow>
            DAList.lookup (seedAddressMap fetched) (Type a) = Some (Address a))"
proof -
  from reconcile_address_written [OF assms] have "distinct (map Type addrs)"
    by (auto simp: distinct_mapToSlice)
  moreover have "\<forall>fetched pre a post.
      fetched = pre @ a # post \<and> list_all (\<lambda>b. Type b \<noteq> Type a) post \<longrightarrow>
      DAList.lookup (seedAddressMap fetched) (Type a) = Some (Address a)"
    using seed_last by blast
  ultimately show ?thesis ..
qed

text \<open>C9 at a node with two Hostname entries: the written list has one.\<close>

theorem written_addresses_one_per_type_witness:
  "Patch ''node1'' (ReplaceStatusAddresses two_hostnames_written)
     \<in> set (issued (cluster_of two_hostnames [])
              (snd (reconcile cfg_external_only host_ex [] updater_ex (cluster_of two_hostnames []))))
   \<and> \<not> distinct (map Type two_hostnames)
   \<and> distinct (map Type two_hostnames_written)"
proof -
  have p: "Patch ''node1'' (ReplaceStatusAddresses two_hostnames_written)
     \<in> set (issued (cluster_of two_hostnames [])
              (snd (reconcile cfg_external_only host_ex [] updater_ex (cluster_of two_hostnames []))))"
    by (simp add: eval_defs fixture_defs)
  have d: "\<not> distinct (map Type two_hostnames)" by (simp add: two_hostnames_def)
  from written_addresses_one_per_type [OF p] p d show ?thesis by blast
qed

subsection \<open>C10: only the first matching taint is removed\<close>

text \<open>
  C10: if the taint removal reads a node whose taint list is \<open>pre @ t # post\<close>, where
  \<open>t\<close> is the first taint with the key \<open>node.cloudprovider.kubernetes.io/uninitialized\<close>,
  it issues one patch, whose taint list is \<open>pre @ post\<close>: every other taint, also a later
  one with the same key, remains, in the original order; and when the patch succeeds
  that list is what the node then stores.
\<close>

theorem RemoveTaint_first_only:
  assumes "fst (Nodes_Get (nodeName u) w) = Inr node"
    and "Taints (Spec node) = pre @ t # post"
    and "list_all (\<lambda>x. Key x \<noteq> TaintKey) pre"
    and "Key t = TaintKey"
  shows "issued w (snd (RemoveTaint u w)) =
           [Get (nodeName u), Patch (nodeName u) (ReplaceSpecTaints (pre @ post))]
       \<and> filter (\<lambda>x. Key x = TaintKey) (pre @ post) = filter (\<lambda>x. Key x = TaintKey) post
       \<and> (fst (RemoveTaint u w) = Inr () \<longrightarrow>
            taintsOf (snd (RemoveTaint u w)) (nodeName u) = Some (pre @ post))"
proof -
  obtain r w1 where g: "Nodes_Get (nodeName u) w = (r, w1)" by (cases "Nodes_Get (nodeName u) w")
  with assms(1) have r: "r = Inr node" by simp
  from Nodes_Get_effect [of "nodeName u" w] g
  have w1: "nodes w1 = nodes w" "calls w1 = calls w @ [Get (nodeName u)]" by simp_all
  have idx: "taintIndex_of (Taints (Spec node)) = int (length pre)"
    using assms(2-4) taintIndex_from_first [of pre t 0 post] by (simp add: taintIndex_of_def)
  let ?p = "ReplaceSpecTaints (pre @ post)"
  obtain r2 w2 where p: "Nodes_Patch (nodeName u) ?p w1 = (r2, w2)"
    by (cases "Nodes_Patch (nodeName u) ?p w1")
  from Nodes_Patch_effect [of "nodeName u" ?p w1] p w1
  have w2: "calls w2 = calls w @ [Get (nodeName u), Patch (nodeName u) ?p]" by simp
  have rt: "RemoveTaint u w =
      (case r2 of Inl err \<Rightarrow> (Inl (FailedToRemoveTaint err), w2) | Inr _ \<Rightarrow> (Inr (), w2))"
    using g r idx assms(2) p by (simp add: RemoveTaint_def)
  have stored: "r2 = Inr n' \<Longrightarrow> taintsOf w2 (nodeName u) = Some (pre @ post)" for n'
    using p by (auto simp: Nodes_Patch_def apply_patch_def taintsOf_def
        split: prod.splits bool.splits option.splits)
  show ?thesis
  proof (cases r2)
    case (Inl e)
    with rt w2 assms(3) show ?thesis by (simp add: list_all_iff filter_empty_conv)
  next
    case (Inr n')
    with rt w2 assms(3) stored [of n'] show ?thesis by (simp add: list_all_iff filter_empty_conv)
  qed
qed

text \<open>
  C10 at a node with the taints \<open>dedicated\<close>, \<open>uninitialized\<close> (NoSchedule) and
  \<open>uninitialized\<close> (NoExecute): the patch keeps the first and the third.
\<close>

theorem RemoveTaint_first_only_witness:
  "fst (Nodes_Get (nodeName updater_ex)
          (cluster_of kubelet_addresses [dedicated, uninitialized, uninitialized_noexec]))
     = Inr (node_of kubelet_addresses [dedicated, uninitialized, uninitialized_noexec])
   \<and> list_all (\<lambda>x. Key x \<noteq> TaintKey) [dedicated]
   \<and> Key uninitialized = TaintKey
   \<and> Key uninitialized_noexec = TaintKey
   \<and> issued (cluster_of kubelet_addresses [dedicated, uninitialized, uninitialized_noexec])
        (snd (RemoveTaint updater_ex
                (cluster_of kubelet_addresses [dedicated, uninitialized, uninitialized_noexec])))
       = [Get (nodeName updater_ex),
          Patch (nodeName updater_ex) (ReplaceSpecTaints ([dedicated] @ [uninitialized_noexec]))]"
proof -
  let ?w = "cluster_of kubelet_addresses [dedicated, uninitialized, uninitialized_noexec]"
  let ?node = "node_of kubelet_addresses [dedicated, uninitialized, uninitialized_noexec]"
  have g: "fst (Nodes_Get (nodeName updater_ex) ?w) = Inr ?node"
    by (simp add: Nodes_Get_def request_def fixture_defs)
  have s: "Taints (Spec ?node) = [dedicated] @ uninitialized # [uninitialized_noexec]"
    by (simp add: node_of_def)
  have a: "list_all (\<lambda>x. Key x \<noteq> TaintKey) [dedicated]"
    by (simp add: dedicated_def TaintKey_def)
  have k: "Key uninitialized = TaintKey" "Key uninitialized_noexec = TaintKey"
    by (simp_all add: uninitialized_def uninitialized_noexec_def)
  from RemoveTaint_first_only [OF g s a k(1)] g a k show ?thesis by simp
qed

end
